theory Spec2Isabelle
  imports Main
begin

section \<open>Strings\<close>

text \<open>
  A JavaScript string is a sequence of UTF-16 code units. The model uses \<open>string\<close>:
  one \<open>char\<close> stands for one code unit in the range 0..255, and \<open>length\<close> counts code
  units as \<open>String.prototype.length\<close> does.
\<close>

definition isWhiteSpace :: "char \<Rightarrow> bool" where
  \<comment> \<open>The code units below 256 that \<open>trim()\<close> strips and \<open>\s\<close> matches:
      TAB, LF, VT, FF, CR, SPACE, NO-BREAK SPACE.\<close>
  "isWhiteSpace c \<longleftrightarrow>
     c \<in> set [CHR 0x09, CHR 0x0A, CHR 0x0B, CHR 0x0C, CHR 0x0D, CHR 0x20, CHR 0xA0]"

definition trim :: "string \<Rightarrow> string" where
  \<comment> \<open>\<open>String.prototype.trim\<close>\<close>
  "trim s = rev (dropWhile isWhiteSpace (rev (dropWhile isWhiteSpace s)))"

fun str_includes :: "string \<Rightarrow> string \<Rightarrow> bool" where
  \<comment> \<open>\<open>s.includes(pat)\<close>: \<open>pat\<close> occurs in \<open>s\<close> as a contiguous substring\<close>
  "str_includes [] pat = (pat = [])"
| "str_includes (c # cs) pat = (take (length pat) (c # cs) = pat \<or> str_includes cs pat)"

fun join :: "string \<Rightarrow> string list \<Rightarrow> string" where
  \<comment> \<open>\<open>xs.join(sep)\<close>\<close>
  "join sep [] = []"
| "join sep [x] = x"
| "join sep (x # y # ys) = x @ sep @ join sep (y # ys)"

definition digit_char :: "nat \<Rightarrow> char" where
  "digit_char d = ''0123456789'' ! d"

function show_nat :: "nat \<Rightarrow> string" where
  "show_nat n = (if n < 10 then [digit_char n] else show_nat (n div 10) @ [digit_char (n mod 10)])"
  by pat_completeness auto
termination
  by (relation "measure id") auto

declare show_nat.simps [simp del]

definition isSafeInteger :: "int \<Rightarrow> bool" where
  \<comment> \<open>\<open>Number.isSafeInteger\<close>: magnitude at most \<open>2^53 - 1\<close>\<close>
  "isSafeInteger i \<longleftrightarrow> \<bar>i\<bar> \<le> 9007199254740991"

definition show_int :: "int \<Rightarrow> string" where
  \<comment> \<open>A template literal \<open>${n}\<close> for a safe integer \<open>n\<close>: all its digits. Beyond the safe
      integers JavaScript prints a number rounded to 17 digits, and from \<open>1e21\<close> in exponent
      form; such numbers are outside this function's domain, and a statement that shows
      the text of a number assumes \<open>isSafeInteger\<close> of it.\<close>
  "show_int i = (if i < 0 then CHR ''-'' # show_nat (nat (- i)) else show_nat (nat i))"

fun str_less :: "string \<Rightarrow> string \<Rightarrow> bool" where
  \<comment> \<open>the order of the default comparator of \<open>Array.prototype.sort\<close>: code unit by code unit\<close>
  "str_less [] [] = False"
| "str_less [] (y # ys) = True"
| "str_less (x # xs) [] = False"
| "str_less (x # xs) (y # ys) =
     ((of_char x :: nat) < of_char y \<or> (x = y \<and> str_less xs ys))"

fun sort_insert :: "string \<Rightarrow> string list \<Rightarrow> string list" where
  "sort_insert x [] = [x]"
| "sort_insert x (y # ys) = (if str_less y x then y # sort_insert x ys else x # y # ys)"

definition sort_strings :: "string list \<Rightarrow> string list" where
  \<comment> \<open>\<open>cssRules.sort()\<close>\<close>
  "sort_strings xs = foldr sort_insert xs []"

section \<open>The LRU cache\<close>

text \<open>
  A JavaScript \<open>Map\<close> iterates its keys in insertion order, and the cache relies on that
  order, so the map is an association list in insertion order. \<open>Map.prototype.set\<close> on a
  key that is present keeps the key's position; on an absent key it appends.
\<close>

definition Map_get :: "('k \<times> 'v) list \<Rightarrow> 'k \<Rightarrow> 'v option" where
  "Map_get m k = map_of m k"

definition Map_has :: "('k \<times> 'v) list \<Rightarrow> 'k \<Rightarrow> bool" where
  "Map_has m k \<longleftrightarrow> k \<in> set (map fst m)"

definition Map_delete :: "('k \<times> 'v) list \<Rightarrow> 'k \<Rightarrow> ('k \<times> 'v) list" where
  "Map_delete m k = filter (\<lambda>kv. fst kv \<noteq> k) m"

definition Map_set :: "('k \<times> 'v) list \<Rightarrow> 'k \<Rightarrow> 'v \<Rightarrow> ('k \<times> 'v) list" where
  "Map_set m k v =
     (if Map_has m k then map (\<lambda>kv. if fst kv = k then (k, v) else kv) m else m @ [(k, v)])"

definition Map_first_key :: "('k \<times> 'v) list \<Rightarrow> 'k option" where
  \<comment> \<open>\<open>m.keys().next().value\<close>, \<open>undefined\<close> on an empty map\<close>
  "Map_first_key m = (case m of [] \<Rightarrow> None | kv # _ \<Rightarrow> Some (fst kv))"

record ('k, 'v) LRUCache =
  entries :: "('k \<times> 'v) list"
  maxSize :: nat

definition LRUCache_new :: "nat \<Rightarrow> ('k, 'v) LRUCache" where
  "LRUCache_new n = \<lparr>entries = [], maxSize = n\<rparr>"

definition LRUCache_get :: "('k, 'v) LRUCache \<Rightarrow> 'k \<Rightarrow> 'v option \<times> ('k, 'v) LRUCache" where
  "LRUCache_get c key =
     (case Map_get (entries c) key of
        None \<Rightarrow> (None, c)
      | Some v \<Rightarrow> (Some v, c\<lparr>entries := Map_set (Map_delete (entries c) key) key v\<rparr>))"

definition LRUCache_set :: "('k, 'v) LRUCache \<Rightarrow> 'k \<Rightarrow> 'v \<Rightarrow> ('k, 'v) LRUCache" where
  "LRUCache_set c key v =
     (let m = entries c;
          m' = (if Map_has m key then Map_delete m key
                else if maxSize c \<le> length m then
                  (case Map_first_key m of
                     None \<Rightarrow> m
                   | Some firstKey \<Rightarrow> Map_delete m firstKey)
                else m)
      in c\<lparr>entries := Map_set m' key v\<rparr>)"

definition LRUCache_clear :: "('k, 'v) LRUCache \<Rightarrow> ('k, 'v) LRUCache" where
  "LRUCache_clear c = c\<lparr>entries := []\<rparr>"

definition LRUCache_size :: "('k, 'v) LRUCache \<Rightarrow> nat" where
  "LRUCache_size c = length (entries c)"

text \<open>A sequence of operations on one cache, applied from left to right.\<close>

datatype ('k, 'v) cache_op = Get 'k | Set 'k 'v | Clear

fun apply_op :: "('k, 'v) LRUCache \<Rightarrow> ('k, 'v) cache_op \<Rightarrow> ('k, 'v) LRUCache" where
  "apply_op c (Get k) = snd (LRUCache_get c k)"
| "apply_op c (Set k v) = LRUCache_set c k v"
| "apply_op c Clear = LRUCache_clear c"

definition run_ops :: "('k, 'v) LRUCache \<Rightarrow> ('k, 'v) cache_op list \<Rightarrow> ('k, 'v) LRUCache" where
  "run_ops c ops = foldl apply_op c ops"

definition insert_all :: "('k, 'v) LRUCache \<Rightarrow> ('k \<times> 'v) list \<Rightarrow> ('k, 'v) LRUCache" where
  \<comment> \<open>\<open>set\<close> for each pair of the list, in order\<close>
  "insert_all c kvs = foldl (\<lambda>c kv. LRUCache_set c (fst kv) (snd kv)) c kvs"

text \<open>The representation invariant: keys are distinct, as in a \<open>Map\<close>, and the size is within the capacity.\<close>

definition cache_inv :: "('k, 'v) LRUCache \<Rightarrow> bool" where
  "cache_inv c \<longleftrightarrow> distinct (map fst (entries c)) \<and> length (entries c) \<le> maxSize c"

section \<open>Regular expressions\<close>

text \<open>
  The source tests its input against regular expression literals. Each is written here with
  matchers in continuation-passing style: a matcher takes the test for the rest of the
  input and the input, and explores every way to match, so the result is that of the
  backtracking engine's \<open>test\<close>. All the literals but one carry the flag \<open>i\<close>.
\<close>

definition canonicalize :: "char \<Rightarrow> char" where
  \<comment> \<open>Case folding under the flag \<open>i\<close> (without \<open>u\<close>): upper case, which maps no code unit
      from 128 on to an ASCII one. The patterns hold ASCII characters only, so only the
      folding of ASCII letters is ever compared.\<close>
  "canonicalize c =
     (case map_of (zip ''abcdefghijklmnopqrstuvwxyz'' ''ABCDEFGHIJKLMNOPQRSTUVWXYZ'') c of
        Some u \<Rightarrow> u
      | None \<Rightarrow> c)"

type_synonym matcher = "(string \<Rightarrow> bool) \<Rightarrow> string \<Rightarrow> bool"

definition rx_lit :: "string \<Rightarrow> matcher" where
  \<comment> \<open>a literal, compared ignoring case\<close>
  "rx_lit pat k s \<longleftrightarrow>
     length pat \<le> length s
     \<and> map canonicalize (take (length pat) s) = map canonicalize pat
     \<and> k (drop (length pat) s)"

fun rx_star :: "(char \<Rightarrow> bool) \<Rightarrow> matcher" where
  \<comment> \<open>\<open>[class]*\<close>\<close>
  "rx_star p k [] = k []"
| "rx_star p k (c # cs) = (k (c # cs) \<or> (p c \<and> rx_star p k cs))"

definition rx_plus :: "(char \<Rightarrow> bool) \<Rightarrow> matcher" where
  \<comment> \<open>\<open>[class]+\<close>\<close>
  "rx_plus p k s = (case s of [] \<Rightarrow> False | c # cs \<Rightarrow> p c \<and> rx_star p k cs)"

definition rx_alt :: "matcher list \<Rightarrow> matcher" where
  \<comment> \<open>\<open>(r1|r2|...)\<close>\<close>
  "rx_alt rs k s = list_ex (\<lambda>r. r k s) rs"

definition rx_opt :: "matcher \<Rightarrow> matcher" where
  \<comment> \<open>\<open>(r)?\<close>\<close>
  "rx_opt r k s = (r k s \<or> k s)"

definition rx_end :: "string \<Rightarrow> bool" where
  \<comment> \<open>\<open>$\<close>\<close>
  "rx_end s \<longleftrightarrow> s = []"

definition rx_any :: "string \<Rightarrow> bool" where
  \<comment> \<open>the pattern is over; what follows is not looked at\<close>
  "rx_any s \<longleftrightarrow> True"

fun rx_search :: "matcher \<Rightarrow> string \<Rightarrow> bool" where
  \<comment> \<open>\<open>test\<close> of a pattern without \<open>^\<close>: a match may start at any position\<close>
  "rx_search r [] = r rx_any []"
| "rx_search r (c # cs) = (r rx_any (c # cs) \<or> rx_search r cs)"

definition isDigit :: "char \<Rightarrow> bool" where
  \<comment> \<open>\<open>\d\<close>\<close>
  "isDigit c \<longleftrightarrow> c \<in> set ''0123456789''"

definition isLetterOrDash :: "char \<Rightarrow> bool" where
  \<comment> \<open>\<open>[a-z-]\<close> under the flag \<open>i\<close>\<close>
  "isLetterOrDash c \<longleftrightarrow>
     c \<in> set ''abcdefghijklmnopqrstuvwxyz'' \<or> c \<in> set ''ABCDEFGHIJKLMNOPQRSTUVWXYZ''
     \<or> c = CHR ''-''"

definition isWordChar :: "char \<Rightarrow> bool" where
  \<comment> \<open>\<open>\w\<close>\<close>
  "isWordChar c \<longleftrightarrow>
     c \<in> set ''abcdefghijklmnopqrstuvwxyz'' \<or> c \<in> set ''ABCDEFGHIJKLMNOPQRSTUVWXYZ''
     \<or> c \<in> set ''0123456789'' \<or> c = CHR ''_''"

definition isSpecialChar :: "char \<Rightarrow> bool" where
  \<comment> \<open>\<open>[<>{}()[\]]\<close>\<close>
  "isSpecialChar c \<longleftrightarrow> c \<in> set ''<>{}()[]''"

definition notLineTerminator :: "char \<Rightarrow> bool" where
  \<comment> \<open>\<open>.\<close>: any code unit but LF and CR (the other two line terminators are above 255)\<close>
  "notLineTerminator c \<longleftrightarrow> c \<noteq> CHR 0x0A \<and> c \<noteq> CHR 0x0D"

section \<open>Results, configuration and errors\<close>

record ConversionResult =
  css :: string
  error :: "string option"
  warnings :: "string list option"

record ProcessorConfig =
  debounceMs :: int
  maxInputLength :: int
  enableSyntaxHighlighting :: bool

text \<open>
  What a \<open>catch\<close> clause can receive: an \<open>Error\<close> object with its name and message, or any
  other thrown value (a thrown string, say).
\<close>

datatype js_value = JsError string string | JsOther string

definition formatError :: "js_value \<Rightarrow> string" where
  "formatError e =
     (case e of
        JsError name message \<Rightarrow>
          if name = ''SecurityError'' then
            ''Security error: Unable to access computed styles. This might be due to browser security restrictions.''
          else if str_includes message ''DOM'' then
            ''DOM error: Unable to create virtual element for style computation.''
          else if str_includes message ''getComputedStyle'' then
            ''Style computation error: Unable to extract CSS styles from the element.''
          else message
      | JsOther v \<Rightarrow> ''An unexpected error occurred during CSS conversion.'')"

section \<open>Input guard and sanitization\<close>

definition dangerousPatterns :: "(string \<Rightarrow> bool) list" where
  "dangerousPatterns =
     [rx_search (rx_lit ''<script''),
      rx_search (rx_lit ''javascript:''),
      rx_search (\<lambda>k. rx_lit ''on'' (rx_plus isWordChar (rx_star isWhiteSpace (rx_lit ''='' k)))),
      rx_search (rx_lit ''<iframe''),
      rx_search (rx_lit ''<object''),
      rx_search (rx_lit ''<embed'')]"

definition validateInput :: "string \<Rightarrow> ConversionResult" where
  "validateInput classes =
     (if list_ex (\<lambda>pattern. pattern classes) dangerousPatterns then
        \<lparr>css = [],
         error = Some ''Input contains potentially unsafe content. Please use only Tailwind CSS classes.'',
         warnings = None\<rparr>
      else
        let specialCharCount = length (filter isSpecialChar classes)
        in if specialCharCount > 10 then
             \<lparr>css = [],
              error = Some ''Input contains too many special characters. Please use valid Tailwind CSS classes.'',
              warnings = None\<rparr>
           else \<lparr>css = [], error = None, warnings = None\<rparr>)"

function collapse_whitespace :: "string \<Rightarrow> string" where
  \<comment> \<open>\<open>replace(/\s+/g, ' ')\<close>: every maximal run of white space becomes one space\<close>
  "collapse_whitespace [] = []"
| "collapse_whitespace (c # cs) =
     (if isWhiteSpace c then CHR '' '' # collapse_whitespace (dropWhile isWhiteSpace cs)
      else c # collapse_whitespace cs)"
  by pat_completeness auto
termination
  by (relation "measure length") (auto simp: length_dropWhile_le le_imp_less_Suc)

definition sanitizeInput :: "string \<Rightarrow> string" where
  "sanitizeInput classes =
     trim (collapse_whitespace (filter (\<lambda>c. \<not> isSpecialChar c) classes))"

section \<open>Formatting\<close>

type_synonym style_decl = "string \<Rightarrow> js_value + string"
  \<comment> \<open>a \<open>CSSStyleDeclaration\<close>, seen through \<open>getPropertyValue\<close>: the value of a property,
      or the value thrown by the lookup\<close>

definition relevantProps :: "string list" where
  "relevantProps =
     [''display'', ''position'', ''top'', ''right'', ''bottom'', ''left'', ''z-index'',
      ''float'', ''clear'', ''overflow'', ''overflow-x'', ''overflow-y'',
      ''width'', ''height'', ''min-width'', ''min-height'', ''max-width'', ''max-height'',
      ''margin'', ''margin-top'', ''margin-right'', ''margin-bottom'', ''margin-left'',
      ''padding'', ''padding-top'', ''padding-right'', ''padding-bottom'', ''padding-left'',
      ''border'', ''border-width'', ''border-style'', ''border-color'',
      ''border-radius'', ''box-sizing'',
      ''font-family'', ''font-size'', ''font-weight'', ''font-style'', ''line-height'',
      ''text-align'', ''text-decoration'', ''text-transform'', ''letter-spacing'',
      ''word-spacing'', ''white-space'',
      ''color'', ''background-color'', ''background-image'', ''background-size'',
      ''background-position'', ''background-repeat'', ''opacity'',
      ''flex'', ''flex-direction'', ''flex-wrap'', ''justify-content'', ''align-items'',
      ''align-content'', ''flex-grow'', ''flex-shrink'', ''flex-basis'',
      ''grid-template-columns'', ''grid-template-rows'', ''grid-gap'', ''grid-column'',
      ''grid-row'', ''grid-area'',
      ''transform'', ''transition'', ''animation'']"

definition defaultValues :: "(string \<times> string list) list" where
  "defaultValues =
     [(''margin'', [''0px'', ''0'']),
      (''margin-top'', [''0px'', ''0'']),
      (''margin-right'', [''0px'', ''0'']),
      (''margin-bottom'', [''0px'', ''0'']),
      (''margin-left'', [''0px'', ''0'']),
      (''padding'', [''0px'', ''0'']),
      (''padding-top'', [''0px'', ''0'']),
      (''padding-right'', [''0px'', ''0'']),
      (''padding-bottom'', [''0px'', ''0'']),
      (''padding-left'', [''0px'', ''0'']),
      (''border-width'', [''0px'', ''0'']),
      (''opacity'', [''1'']),
      (''font-weight'', [''400'', ''normal'']),
      (''line-height'', [''normal'']),
      (''text-decoration'', [''none'']),
      (''background-color'', [''rgba(0, 0, 0, 0)'', ''transparent'']),
      (''color'', [''rgb(0, 0, 0)'', ''rgba(0, 0, 0, 1)'']),
      (''display'', [''block'', ''inline'']),
      (''position'', [''static'']),
      (''z-index'', [''auto'']),
      (''overflow'', [''visible'']),
      (''text-align'', [''start'', ''left'']),
      (''font-style'', [''normal'']),
      (''text-transform'', [''none'']),
      (''white-space'', [''normal''])]"

definition isNonDefaultValue :: "string \<Rightarrow> string \<Rightarrow> bool" where
  \<comment> \<open>\<open>defaultValues[property]\<close> is a lookup in the table: the properties asked for are those
      of \<open>relevantProps\<close>, none of which names a member of \<open>Object.prototype\<close>\<close>
  "isNonDefaultValue property v =
     (if v = [] \<or> v = ''initial'' \<or> v = ''inherit'' \<or> v = ''unset'' then False
      else (case map_of defaultValues property of
              None \<Rightarrow> True
            | Some defaults \<Rightarrow> v \<notin> set defaults))"

fun filter_props :: "style_decl \<Rightarrow> string list \<Rightarrow> js_value + string list" where
  \<comment> \<open>\<open>props.filter(prop => styles.getPropertyValue(prop))\<close>; the first lookup that throws
      ends the filter\<close>
  "filter_props styles [] = Inr []"
| "filter_props styles (prop # props) =
     (case styles prop of
        Inl e \<Rightarrow> Inl e
      | Inr v \<Rightarrow>
          (case filter_props styles props of
             Inl e \<Rightarrow> Inl e
           | Inr rest \<Rightarrow> Inr (if v \<noteq> [] then prop # rest else rest)))"

definition getRelevantCSSProperties :: "style_decl \<Rightarrow> js_value + string list" where
  "getRelevantCSSProperties styles = filter_props styles relevantProps"

fun format_rules :: "style_decl \<Rightarrow> string list \<Rightarrow> js_value + string list" where
  \<comment> \<open>the \<open>for\<close> loop of \<open>formatCSS\<close>: the lines pushed to \<open>cssRules\<close>, in order\<close>
  "format_rules styles [] = Inr []"
| "format_rules styles (property # props) =
     (case styles property of
        Inl e \<Rightarrow> Inl e
      | Inr v \<Rightarrow>
          (case format_rules styles props of
             Inl e \<Rightarrow> Inl e
           | Inr rules \<Rightarrow>
               Inr (if v \<noteq> [] \<and> isNonDefaultValue property v
                    then (''  '' @ property @ '': '' @ v @ '';'') # rules else rules)))"

definition noStylesComment :: string where
  "noStylesComment = ''/* No styles generated - try adding some Tailwind classes */''"

definition formatCSS :: "style_decl \<Rightarrow> js_value + string" where
  "formatCSS styles =
     (case getRelevantCSSProperties styles of
        Inl e \<Rightarrow> Inl e
      | Inr relevantProperties \<Rightarrow>
          (case format_rules styles relevantProperties of
             Inl e \<Rightarrow> Inl e
           | Inr cssRules \<Rightarrow>
               Inr (if length cssRules = 0 then noStylesComment
                    else ''.element {'' @ [CHR 0x0A] @ join [CHR 0x0A] (sort_strings cssRules)
                         @ [CHR 0x0A] @ ''}'')))"

section \<open>Diagnostics\<close>

function split_whitespace :: "string \<Rightarrow> string list" where
  \<comment> \<open>\<open>s.split(/\s+/)\<close>: the pieces between the maximal runs of white space, empty pieces
      at both ends included\<close>
  "split_whitespace s =
     (let piece = takeWhile (\<lambda>c. \<not> isWhiteSpace c) s;
          rest = dropWhile (\<lambda>c. \<not> isWhiteSpace c) s
      in if rest = [] then [piece]
         else piece # split_whitespace (dropWhile isWhiteSpace rest))"
  by pat_completeness auto
termination
proof (relation "measure length", goal_cases)
  case 1
  show ?case by simp
next
  case (2 s piece rest)
  then obtain c cs where r: "dropWhile (\<lambda>c. \<not> isWhiteSpace c) s = c # cs"
    by (cases "dropWhile (\<lambda>c. \<not> isWhiteSpace c) s") auto
  then have "isWhiteSpace c" using hd_dropWhile[of "\<lambda>c. \<not> isWhiteSpace c" s] by auto
  then have "length (dropWhile isWhiteSpace (c # cs)) \<le> length cs"
    by (simp add: length_dropWhile_le)
  moreover have "length (c # cs) \<le> length s"
    using length_dropWhile_le[of "\<lambda>c. \<not> isWhiteSpace c" s] r by simp
  ultimately show ?case using 2 r by simp
qed

declare split_whitespace.simps [simp del]

definition sizeNames :: "string list" where
  "sizeNames = [''xs'', ''sm'', ''md'', ''lg'', ''xl'', ''2xl'', ''3xl'', ''4xl'', ''5xl'',
                ''6xl'', ''7xl'', ''8xl'', ''9xl'']"

definition fractionNames :: "string list" where
  "fractionNames = [''10'', ''20'', ''25'', ''30'', ''40'', ''50'', ''60'', ''70'', ''75'',
                    ''80'', ''90'', ''95'', ''100'']"

definition variantNames :: "string list" where
  "variantNames = [''hover'', ''focus'', ''active'', ''disabled'', ''first'', ''last'', ''odd'',
                   ''even'', ''group-hover'', ''group-focus'']"

definition breakpointNames :: "string list" where
  "breakpointNames = [''sm'', ''md'', ''lg'', ''xl'', ''2xl'']"

definition matches_utility :: "string \<Rightarrow> bool" where
  \<comment> \<open>\<open>/^[a-z-]+(\d+|xs|...|9xl)?(\/(10|...|100))?$/i\<close>\<close>
  "matches_utility =
     rx_plus isLetterOrDash
       (rx_opt (rx_alt (rx_plus isDigit # map rx_lit sizeNames))
          (rx_opt (\<lambda>k. rx_lit ''/'' (rx_alt (map rx_lit fractionNames) k))
             rx_end))"

definition matches_variant :: "string \<Rightarrow> bool" where
  \<comment> \<open>\<open>/^(hover|...|group-focus):/i\<close>\<close>
  "matches_variant = rx_alt (map rx_lit variantNames) (rx_lit '':'' rx_any)"

definition matches_breakpoint :: "string \<Rightarrow> bool" where
  \<comment> \<open>\<open>/^(sm|md|lg|xl|2xl):/i\<close>\<close>
  "matches_breakpoint = rx_alt (map rx_lit breakpointNames) (rx_lit '':'' rx_any)"

definition matches_arbitrary :: "string \<Rightarrow> bool" where
  \<comment> \<open>\<open>/^[a-z-]+\[.+\]$/i\<close>\<close>
  "matches_arbitrary =
     rx_plus isLetterOrDash (rx_lit ''['' (rx_plus notLineTerminator (rx_lit '']'' rx_end)))"

definition generateWarnings :: "string \<Rightarrow> string \<Rightarrow> string list" where
  "generateWarnings classes css_text =
     (let classArray = filter (\<lambda>t. t \<noteq> []) (split_whitespace classes);
          invalidClasses =
            filter (\<lambda>cls. \<not> matches_utility cls \<and> \<not> matches_variant cls
                          \<and> \<not> matches_breakpoint cls \<and> \<not> matches_arbitrary cls) classArray;
          w1 = (if length invalidClasses > 0 \<and> length invalidClasses \<le> 3 then
                  [''Potentially invalid classes: '' @ join '', '' invalidClasses]
                else if length invalidClasses > 3 then
                  [show_nat (length invalidClasses) @ '' potentially invalid classes detected'']
                else []);
          w2 = (if str_includes css_text ''No styles generated'' \<and> length classArray > 0 then
                  [''No CSS styles were generated. Check if the classes are valid Tailwind utilities.'']
                else []);
          longClasses = filter (\<lambda>cls. length cls > 30) classArray;
          w3 = (if length longClasses > 0 then
                  [''Some class names are unusually long. Please verify they are correct.'']
                else [])
      in w1 @ w2 @ w3)"

section \<open>The document and the browser\<close>

text \<open>
  The document is the state the conversion acts on: the hidden elements attached to
  \<open>document.body\<close>, the identity of the next element created, and the log of the calls
  made to the browser. The browser is what answers: \<open>document.createElement\<close>,
  \<open>appendChild\<close> and \<open>window.getComputedStyle\<close> may each throw, and the computed style
  of an element depends on its class string.
\<close>

record element =
  elem_id :: nat
  className :: string

datatype dom_call = CreateElement | AppendChild nat | GetComputedStyle nat | RemoveChild nat

record document =
  body :: "element list"
  nextId :: nat
  calls :: "dom_call list"

record browser =
  createElement_throws :: "js_value option"
  appendChild_throws :: "js_value option"
  getComputedStyle_result :: "string \<Rightarrow> js_value + style_decl"

definition createVirtualElement ::
    "browser \<Rightarrow> document \<Rightarrow> string \<Rightarrow> (js_value + element) \<times> document" where
  "createVirtualElement b d classes =
     (let d1 = d\<lparr>calls := calls d @ [CreateElement]\<rparr>
      in case createElement_throws b of
           Some e \<Rightarrow> (Inl e, d1)
         | None \<Rightarrow>
             let el = \<lparr>elem_id = nextId d1, className = classes\<rparr>;
                 d2 = d1\<lparr>nextId := Suc (nextId d1), calls := calls d1 @ [AppendChild (elem_id el)]\<rparr>
             in case appendChild_throws b of
                  Some e \<Rightarrow> (Inl e, d2)
                | None \<Rightarrow> (Inr el, d2\<lparr>body := body d2 @ [el]\<rparr>))"

definition extractComputedStyles ::
    "browser \<Rightarrow> document \<Rightarrow> element \<Rightarrow> (js_value + style_decl) \<times> document" where
  "extractComputedStyles b d el =
     (getComputedStyle_result b (className el),
      d\<lparr>calls := calls d @ [GetComputedStyle (elem_id el)]\<rparr>)"

definition cleanupVirtualElement :: "document \<Rightarrow> element \<Rightarrow> document" where
  \<comment> \<open>\<open>if (element.parentNode) element.parentNode.removeChild(element)\<close>\<close>
  "cleanupVirtualElement d el =
     (if el \<in> set (body d) then
        d\<lparr>body := filter (\<lambda>x. elem_id x \<noteq> elem_id el) (body d),
          calls := calls d @ [RemoveChild (elem_id el)]\<rparr>
      else d)"

section \<open>The processor\<close>

text \<open>
  \<open>convertTailwindToCSS\<close> is declared \<open>async\<close> and awaits nothing: a call runs from its
  first line to its \<open>return\<close> without interleaving, so it is a function from the processor
  and the document before the call to the result and the two after it. Every \<open>throw\<close> in
  the \<open>try\<close> block comes from the browser and is a value \<open>Inl e\<close> below; the \<open>catch\<close> clause is
  the branch that turns it into a result.
\<close>

record CSSProcessor =
  config :: ProcessorConfig
  cache :: "(string, ConversionResult) LRUCache"

definition defaultConfig :: ProcessorConfig where
  "defaultConfig = \<lparr>debounceMs = 300, maxInputLength = 10000, enableSyntaxHighlighting = True\<rparr>"

definition CSSProcessor_new :: "ProcessorConfig \<Rightarrow> CSSProcessor" where
  "CSSProcessor_new cfg = \<lparr>config = cfg, cache = LRUCache_new 50\<rparr>"

definition inputTooLong :: "int \<Rightarrow> ConversionResult" where
  "inputTooLong limit =
     \<lparr>css = [],
      error = Some (''Input too long. Maximum '' @ show_int limit @ '' characters allowed.''),
      warnings = None\<rparr>"

definition exceedsMaxLength :: "ProcessorConfig \<Rightarrow> string \<Rightarrow> bool" where
  \<comment> \<open>the length check: \<open>classes.length > this.config.maxInputLength\<close>\<close>
  "exceedsMaxLength cfg classes \<longleftrightarrow> int (length classes) > maxInputLength cfg"

definition hasError :: "ConversionResult \<Rightarrow> bool" where
  \<comment> \<open>\<open>if (result.error)\<close>: the error is present and not the empty string\<close>
  "hasError v \<longleftrightarrow> error v \<noteq> None \<and> error v \<noteq> Some []"

definition extractAndFormat ::
    "browser \<Rightarrow> document \<Rightarrow> string \<Rightarrow> (js_value + string) \<times> document" where
  \<comment> \<open>lines 89 to 95 of \<open>convertTailwindToCSS\<close>: create the element, read its computed
      style, format it, remove the element; a throw leaves at once\<close>
  "extractAndFormat b d sanitizedClasses =
     (case createVirtualElement b d sanitizedClasses of
        (Inl e, d1) \<Rightarrow> (Inl e, d1)
      | (Inr el, d1) \<Rightarrow>
          (case extractComputedStyles b d1 el of
             (Inl e, d2) \<Rightarrow> (Inl e, d2)
           | (Inr computedStyles, d2) \<Rightarrow>
               (case formatCSS computedStyles of
                  Inl e \<Rightarrow> (Inl e, d2)
                | Inr css_text \<Rightarrow> (Inr css_text, cleanupVirtualElement d2 el))))"

definition convertTailwindToCSS ::
    "browser \<Rightarrow> CSSProcessor \<Rightarrow> document \<Rightarrow> string
       \<Rightarrow> ConversionResult \<times> CSSProcessor \<times> document" where
  "convertTailwindToCSS b p d classes =
     (if trim classes = [] then (\<lparr>css = [], error = None, warnings = None\<rparr>, p, d)
      else if exceedsMaxLength (config p) classes then
        (inputTooLong (maxInputLength (config p)), p, d)
      else
        let cacheKey = trim classes;
            (cachedResult, cache1) = LRUCache_get (cache p) cacheKey;
            p1 = p\<lparr>cache := cache1\<rparr>
        in case cachedResult of
             Some r \<Rightarrow> (r, p1, d)
           | None \<Rightarrow>
               let validationResult = validateInput classes
               in if hasError validationResult
                  then (validationResult, p1, d)
                  else
                    let sanitizedClasses = sanitizeInput classes
                    in case extractAndFormat b d sanitizedClasses of
                         (Inl e, d') \<Rightarrow>
                           (\<lparr>css = [], error = Some (formatError e), warnings = None\<rparr>, p1, d')
                       | (Inr css_text, d') \<Rightarrow>
                           let ws = generateWarnings sanitizedClasses css_text;
                               result = \<lparr>css = css_text, error = None,
                                         warnings = (if length ws > 0 then Some ws else None)\<rparr>
                           in (result, p1\<lparr>cache := LRUCache_set cache1 cacheKey result\<rparr>, d'))"

definition clearCache :: "CSSProcessor \<Rightarrow> CSSProcessor" where
  "clearCache p = p\<lparr>cache := LRUCache_clear (cache p)\<rparr>"

definition getCacheStats :: "CSSProcessor \<Rightarrow> nat \<times> nat" where
  \<comment> \<open>\<open>{size, maxSize}\<close>\<close>
  "getCacheStats p = (LRUCache_size (cache p), 50)"

text \<open>
  The processors a program can hold: a new one, and what \<open>convertTailwindToCSS\<close> and
  \<open>clearCache\<close> make of one, the cache being private. The parameter restricts the browsers
  that answer the conversions.
\<close>

inductive reachable :: "(browser \<Rightarrow> bool) \<Rightarrow> CSSProcessor \<Rightarrow> bool" for A where
  reachable_new: "reachable A (CSSProcessor_new cfg)"
| reachable_convert:
    "reachable A p \<Longrightarrow> A b \<Longrightarrow> convertTailwindToCSS b p d classes = (r, p', d')
     \<Longrightarrow> reachable A p'"
| reachable_clear: "reachable A p \<Longrightarrow> reachable A (clearCache p)"

section \<open>Named results and test doubles\<close>

definition emptyResult :: ConversionResult where
  \<comment> \<open>\<open>{ css: '' }\<close>\<close>
  "emptyResult = \<lparr>css = [], error = None, warnings = None\<rparr>"

definition successResult :: "string \<Rightarrow> string \<Rightarrow> ConversionResult" where
  \<comment> \<open>lines 98 to 103: the result assembled from the formatted text and the warnings\<close>
  "successResult sanitizedClasses css_text =
     (let ws = generateWarnings sanitizedClasses css_text
      in \<lparr>css = css_text, error = None, warnings = (if length ws > 0 then Some ws else None)\<rparr>)"

definition recognized :: "js_value \<Rightarrow> bool" where
  \<comment> \<open>the thrown values that \<open>formatError\<close> answers with one of its three specific messages\<close>
  "recognized e =
     (case e of
        JsError name message \<Rightarrow>
          name = ''SecurityError'' \<or> str_includes message ''DOM''
          \<or> str_includes message ''getComputedStyle''
      | JsOther v \<Rightarrow> False)"

definition no_cached_errors :: "CSSProcessor \<Rightarrow> bool" where
  "no_cached_errors p \<longleftrightarrow> (\<forall>kv \<in> set (entries (cache p)). error (snd kv) = None)"

text \<open>
  The doubles follow the mocks of the repository's tests: a computed style that answers
  from a table and the empty string elsewhere, a browser that returns it for every
  element, browsers whose \<open>createElement\<close> or \<open>getComputedStyle\<close> throws, and a document
  with nothing attached.
\<close>

definition mockStyles :: "(string \<times> string) list \<Rightarrow> style_decl" where
  "mockStyles table prop = Inr (case map_of table prop of Some v \<Rightarrow> v | None \<Rightarrow> [])"

definition mockBrowser :: "(string \<times> string) list \<Rightarrow> browser" where
  "mockBrowser table =
     \<lparr>createElement_throws = None, appendChild_throws = None,
      getComputedStyle_result = (\<lambda>cls. Inr (mockStyles table))\<rparr>"

definition createElementThrows :: "js_value \<Rightarrow> browser" where
  "createElementThrows e =
     \<lparr>createElement_throws = Some e, appendChild_throws = None,
      getComputedStyle_result = (\<lambda>cls. Inr (mockStyles []))\<rparr>"

definition getComputedStyleThrows :: "js_value \<Rightarrow> browser" where
  "getComputedStyleThrows e =
     \<lparr>createElement_throws = None, appendChild_throws = None,
      getComputedStyle_result = (\<lambda>cls. Inl e)\<rparr>"

definition emptyDocument :: document where
  "emptyDocument = \<lparr>body = [], nextId = 0, calls = []\<rparr>"

section \<open>Predicates of the statements\<close>

definition noStylesResult :: ConversionResult where
  "noStylesResult = \<lparr>css = noStylesComment, error = None, warnings = None\<rparr>"

definition unstyled :: "style_decl \<Rightarrow> bool" where
  \<comment> \<open>no relevant property resolves to a value that is kept\<close>
  "unstyled styles \<longleftrightarrow>
     (\<forall>prop \<in> set relevantProps. \<forall>v. styles prop = Inr v \<longrightarrow> \<not> isNonDefaultValue prop v)"

definition emptyClassUnstyled :: "browser \<Rightarrow> bool" where
  \<comment> \<open>whenever the browser computes a style for the empty class string, it is unstyled\<close>
  "emptyClassUnstyled b \<longleftrightarrow>
     (\<forall>styles. getComputedStyle_result b [] = Inr styles \<longrightarrow> unstyled styles)"

definition emptyClassResolves :: "browser \<Rightarrow> bool" where
  \<comment> \<open>the browser creates and attaches the element and computes a style for the empty
      class string, every relevant property of which can be read\<close>
  "emptyClassResolves b \<longleftrightarrow>
     createElement_throws b = None \<and> appendChild_throws b = None
     \<and> (\<exists>styles. getComputedStyle_result b [] = Inr styles
           \<and> (\<forall>prop \<in> set relevantProps. \<exists>v. styles prop = Inr v))"

definition white_stable :: "(string \<Rightarrow> bool) \<Rightarrow> bool" where
  \<comment> \<open>a test that does not see a white space character appended to its input\<close>
  "white_stable k \<longleftrightarrow> (\<forall>t w. isWhiteSpace w \<longrightarrow> k (t @ [w]) = k t)"

section \<open>Properties of the LRU cache\<close>

lemma Map_delete_keys: "map fst (Map_delete m k) = removeAll k (map fst m)"
  by (induction m) (auto simp: Map_delete_def)

lemma Map_delete_absent: "\<not> Map_has m k \<Longrightarrow> Map_delete m k = m"
  by (induction m) (auto simp: Map_delete_def Map_has_def)

lemma Map_has_delete: "\<not> Map_has (Map_delete m k) k"
  by (simp add: Map_has_def Map_delete_keys)

lemma Map_set_absent: "\<not> Map_has m k \<Longrightarrow> Map_set m k v = m @ [(k, v)]"
  by (simp add: Map_set_def)

lemma Map_delete_length_le: "length (Map_delete m k) \<le> length m"
  by (simp add: Map_delete_def)

lemma Map_delete_length_present:
  "Map_has m k \<Longrightarrow> length (Map_delete m k) < length m"
  by (induction m) (auto simp: Map_delete_def Map_has_def intro: le_imp_less_Suc)

lemma Map_delete_first:
  "distinct (map fst (kv # m)) \<Longrightarrow> Map_delete (kv # m) (fst kv) = m"
  by (induction m) (auto simp: Map_delete_def)

lemma Map_get_has: "Map_get m k = Some v \<Longrightarrow> Map_has m k"
  by (auto simp: Map_get_def Map_has_def dest: map_of_SomeD intro: rev_image_eqI)

lemma LRUCache_get_entries:
  "Map_get (entries c) k = Some v \<Longrightarrow>
   entries (snd (LRUCache_get c k)) = Map_delete (entries c) k @ [(k, v)]"
  by (simp add: LRUCache_get_def Map_set_absent Map_has_delete)

lemma LRUCache_get_miss: "Map_get (entries c) k = None \<Longrightarrow> LRUCache_get c k = (None, c)"
  by (simp add: LRUCache_get_def)

lemma LRUCache_set_present:
  "Map_has (entries c) k \<Longrightarrow>
   entries (LRUCache_set c k v) = Map_delete (entries c) k @ [(k, v)]"
  by (simp add: LRUCache_set_def Map_set_absent Map_has_delete)

lemma LRUCache_set_room:
  "\<not> Map_has (entries c) k \<Longrightarrow> length (entries c) < maxSize c \<Longrightarrow>
   entries (LRUCache_set c k v) = entries c @ [(k, v)]"
  by (simp add: LRUCache_set_def Map_set_absent)

lemma LRUCache_set_full:
  assumes "\<not> Map_has (entries c) k" "maxSize c \<le> length (entries c)"
    "distinct (map fst (entries c))" "entries c \<noteq> []"
  shows "entries (LRUCache_set c k v) = tl (entries c) @ [(k, v)]"
proof -
  obtain kv m where m: "entries c = kv # m" using assms(4) by (cases "entries c") auto
  have d: "Map_delete (kv # m) (fst kv) = m" using assms(3) m by (simp add: Map_delete_first)
  have "\<not> Map_has m k" using assms(1) m by (auto simp: Map_has_def)
  then show ?thesis using assms(1,2) m d
    by (simp add: LRUCache_set_def Map_first_key_def Map_set_absent)
qed

lemma LRUCache_set_maxSize [simp]: "maxSize (LRUCache_set c k v) = maxSize c"
  by (simp add: LRUCache_set_def Let_def)

lemma LRUCache_get_maxSize [simp]: "maxSize (snd (LRUCache_get c k)) = maxSize c"
  by (simp add: LRUCache_get_def split: option.splits)

lemma distinct_keys_delete: "distinct (map fst m) \<Longrightarrow> distinct (map fst (Map_delete m k))"
  by (simp add: Map_delete_keys distinct_removeAll)

lemma cache_inv_set:
  assumes "cache_inv c" "0 < maxSize c"
  shows "cache_inv (LRUCache_set c k v)"
proof (cases "Map_has (entries c) k")
  case True
  have "k \<notin> set (removeAll k (map fst (entries c)))" by simp
  moreover have "length (Map_delete (entries c) k) < length (entries c)"
    using True by (rule Map_delete_length_present)
  ultimately show ?thesis using assms True
    by (simp add: cache_inv_def LRUCache_set_present Map_delete_keys distinct_removeAll)
next
  case False
  have nk: "k \<notin> set (map fst (entries c))" using False by (simp add: Map_has_def)
  show ?thesis
  proof (cases "length (entries c) < maxSize c")
    case True
    then show ?thesis using assms False nk
      by (simp add: cache_inv_def LRUCache_set_room)
  next
    case full: False
    then have ne: "entries c \<noteq> []" using assms(2) by auto
    have e: "entries (LRUCache_set c k v) = tl (entries c) @ [(k, v)]"
      using False full assms(1) ne by (intro LRUCache_set_full) (auto simp: cache_inv_def)
    obtain kv m where m: "entries c = kv # m" using ne by (cases "entries c") auto
    show ?thesis using assms nk m by (auto simp: cache_inv_def e)
  qed
qed

lemma cache_inv_get: "cache_inv c \<Longrightarrow> cache_inv (snd (LRUCache_get c k))"
proof (cases "Map_get (entries c) k")
  case None
  assume "cache_inv c" then show ?thesis using None by (simp add: LRUCache_get_miss)
next
  case (Some v)
  assume inv: "cache_inv c"
  have "length (Map_delete (entries c) k) < length (entries c)"
    using Some by (intro Map_delete_length_present Map_get_has)
  then show ?thesis using inv LRUCache_get_entries[OF Some]
    by (simp add: cache_inv_def Map_delete_keys distinct_removeAll)
qed

lemma cache_inv_clear: "cache_inv c \<Longrightarrow> cache_inv (LRUCache_clear c)"
  by (simp add: cache_inv_def LRUCache_clear_def)

lemma cache_inv_apply_op:
  "cache_inv c \<Longrightarrow> 0 < maxSize c \<Longrightarrow>
   cache_inv (apply_op c x) \<and> maxSize (apply_op c x) = maxSize c"
  by (cases x) (simp_all add: cache_inv_set cache_inv_get cache_inv_clear, simp add: LRUCache_clear_def)

lemma cache_inv_run_ops:
  "cache_inv c \<Longrightarrow> 0 < maxSize c \<Longrightarrow>
   cache_inv (run_ops c ops) \<and> maxSize (run_ops c ops) = maxSize c"
  unfolding run_ops_def
  by (induction ops arbitrary: c) (simp_all add: cache_inv_apply_op)

lemma cache_inv_new: "cache_inv (LRUCache_new n)"
  by (simp add: cache_inv_def LRUCache_new_def)

lemma insert_all_snoc:
  "insert_all c (kvs @ [kv]) = LRUCache_set (insert_all c kvs) (fst kv) (snd kv)"
  by (simp add: insert_all_def)

lemma insert_all_distinct:
  "distinct (map fst kvs) \<Longrightarrow> 0 < n \<Longrightarrow>
   entries (insert_all (LRUCache_new n) kvs) = drop (length kvs - n) kvs
   \<and> maxSize (insert_all (LRUCache_new n) kvs) = n"
proof (induction kvs rule: rev_induct)
  case Nil
  then show ?case by (simp add: insert_all_def LRUCache_new_def)
next
  case (snoc kv kvs)
  let ?c = "insert_all (LRUCache_new n) kvs"
  have ih: "entries ?c = drop (length kvs - n) kvs" "maxSize ?c = n"
    using snoc by simp_all
  have nk: "\<not> Map_has (entries ?c) (fst kv)"
    using snoc.prems(1) ih(1) by (auto simp: Map_has_def dest: in_set_dropD)
  have dist: "distinct (map fst (entries ?c))"
    using snoc.prems(1) ih(1) by (simp add: drop_map[symmetric] distinct_drop)
  show ?case
  proof (cases "length kvs < n")
    case True
    then have "entries (LRUCache_set ?c (fst kv) (snd kv)) = entries ?c @ [kv]"
      using nk ih by (simp add: LRUCache_set_room)
    then show ?thesis using True ih by (simp add: insert_all_snoc)
  next
    case False
    then have len: "length (entries ?c) = n" using ih(1) by simp
    then have ne: "entries ?c \<noteq> []" using snoc.prems(2) by auto
    have "entries (LRUCache_set ?c (fst kv) (snd kv)) = tl (entries ?c) @ [kv]"
      using nk dist ne len ih(2) by (simp add: LRUCache_set_full)
    moreover have "tl (drop (length kvs - n) kvs) = drop (Suc (length kvs) - n) kvs"
      using False by (simp add: tl_drop Suc_diff_le drop_Suc)
    ultimately show ?thesis using False ih snoc.prems(2)
      by (simp add: insert_all_snoc Suc_diff_le)
  qed
qed

lemma run_ops_sets:
  "run_ops c (map (\<lambda>kv. Set (fst kv) (snd kv)) kvs) = insert_all c kvs"
  by (simp add: run_ops_def insert_all_def foldl_map)

text \<open>
  C7. For every sequence of get, set and clear operations on a cache of capacity 50, starting
  from the empty cache, the size never exceeds 50. In every such cache: a set of a new key
  into the full cache removes exactly the first (least recently used) entry and appends the
  new one; a set of a new key below capacity evicts nothing; a get of a present key and a set
  of a present key move that key to the end (most recently used). Inserting 60 pairs with
  distinct keys into the empty cache leaves the last 50, in order: the first 10 are evicted.
\<close>

theorem lru_cache_capacity_and_eviction:
  fixes ops :: "('k, 'v) cache_op list"
  defines "c \<equiv> run_ops (LRUCache_new 50) ops"
  shows "LRUCache_size c \<le> 50
    \<and> (\<forall>k v. \<not> Map_has (entries c) k \<and> LRUCache_size c = 50 \<longrightarrow>
          entries (LRUCache_set c k v) = tl (entries c) @ [(k, v)])
    \<and> (\<forall>k v. \<not> Map_has (entries c) k \<and> LRUCache_size c < 50 \<longrightarrow>
          entries (LRUCache_set c k v) = entries c @ [(k, v)])
    \<and> (\<forall>k v. Map_get (entries c) k = Some v \<longrightarrow>
          LRUCache_get c k = (Some v, c\<lparr>entries := Map_delete (entries c) k @ [(k, v)]\<rparr>))
    \<and> (\<forall>k v. Map_has (entries c) k \<longrightarrow>
          entries (LRUCache_set c k v) = Map_delete (entries c) k @ [(k, v)])
    \<and> (\<forall>kvs :: ('k \<times> 'v) list. distinct (map fst kvs) \<and> length kvs = 60 \<longrightarrow>
          entries (insert_all (LRUCache_new 50) kvs) = drop 10 kvs)"
proof -
  have inv: "cache_inv c" and ms: "maxSize c = 50"
    using cache_inv_run_ops[OF cache_inv_new, of 50 ops]
    by (simp_all add: c_def LRUCache_new_def)
  have size: "LRUCache_size c \<le> 50"
    using inv ms by (simp add: cache_inv_def LRUCache_size_def)
  have full: "entries (LRUCache_set c k v) = tl (entries c) @ [(k, v)]"
    if "\<not> Map_has (entries c) k" "LRUCache_size c = 50" for k v
  proof -
    have "entries c \<noteq> []" using that(2) by (auto simp: LRUCache_size_def)
    then show ?thesis using that inv ms
      by (intro LRUCache_set_full) (simp_all add: cache_inv_def LRUCache_size_def)
  qed
  have room: "entries (LRUCache_set c k v) = entries c @ [(k, v)]"
    if "\<not> Map_has (entries c) k" "LRUCache_size c < 50" for k v
    using that ms by (simp add: LRUCache_set_room LRUCache_size_def)
  have get: "LRUCache_get c k = (Some v, c\<lparr>entries := Map_delete (entries c) k @ [(k, v)]\<rparr>)"
    if "Map_get (entries c) k = Some v" for k v
    using that by (simp add: LRUCache_get_def Map_set_absent Map_has_delete)
  have sixty: "entries (insert_all (LRUCache_new 50) kvs) = drop 10 kvs"
    if "distinct (map fst kvs)" "length kvs = 60" for kvs :: "('k \<times> 'v) list"
    using insert_all_distinct[of kvs 50] that by simp
  show ?thesis
    using size full room get sixty by (simp add: LRUCache_set_present)
qed

theorem lru_cache_capacity_and_eviction_witness:
  "(let c = run_ops (LRUCache_new 50) (map (\<lambda>i. Set i i) [0..<50::nat])
    in \<not> Map_has (entries c) 50 \<and> LRUCache_size c = 50
       \<and> entries (LRUCache_set c 50 50) = tl (entries c) @ [(50, 50)]
       \<and> Map_get (entries c) 7 = Some 7
       \<and> LRUCache_get c 7 = (Some 7, c\<lparr>entries := Map_delete (entries c) 7 @ [(7, 7)]\<rparr>))
   \<and> distinct (map fst (map (\<lambda>i. (i, i)) [0..<60::nat]))
   \<and> length (map (\<lambda>i. (i, i)) [0..<60::nat]) = 60
   \<and> entries (insert_all (LRUCache_new 50) (map (\<lambda>i. (i, i)) [0..<60::nat]))
        = drop 10 (map (\<lambda>i. (i, i)) [0..<60::nat])"
proof -
  let ?kvs = "map (\<lambda>i. (i, i)) [0..<50::nat]"
  let ?ops = "map (\<lambda>i. Set i i) [0..<50::nat]"
  let ?c = "run_ops (LRUCache_new 50) ?ops"
  have ops: "?ops = map (\<lambda>kv. Set (fst kv) (snd kv)) ?kvs" by (simp add: comp_def)
  have fsts: "map fst ?kvs = [0..<50]" by (simp add: comp_def)
  have "entries (insert_all (LRUCache_new 50) ?kvs) = drop (length ?kvs - 50) ?kvs"
    using insert_all_distinct[of ?kvs 50] by (simp add: comp_def)
  then have e: "entries ?c = ?kvs" by (simp only: ops run_ops_sets) simp
  have a: "\<not> Map_has (entries ?c) 50" by (simp add: e Map_has_def comp_def)
  have b: "LRUCache_size ?c = 50" by (simp add: e LRUCache_size_def)
  have g: "Map_get (entries ?c) 7 = Some 7"
    unfolding e Map_get_def by (rule map_of_is_SomeI) (auto simp: comp_def)
  have d: "distinct (map fst (map (\<lambda>i. (i, i)) [0..<60::nat]))" by (simp add: comp_def)
  have l: "length (map (\<lambda>i. (i, i)) [0..<60::nat]) = 60" by simp
  show ?thesis
    using lru_cache_capacity_and_eviction[of ?ops] a b g d l unfolding Let_def by blast
qed

section \<open>The conversion\<close>

lemma Map_get_delete_other: "k' \<noteq> k \<Longrightarrow> Map_get (Map_delete m k) k' = Map_get m k'"
  by (induction m) (auto simp: Map_get_def Map_delete_def)

lemma Map_get_delete_same: "Map_get (Map_delete m k) k = None"
  by (induction m) (auto simp: Map_get_def Map_delete_def)

lemma Map_get_append:
  "Map_get (m @ [(k, v)]) k' = (case Map_get m k' of Some w \<Rightarrow> Some w | None \<Rightarrow> if k' = k then Some v else None)"
  by (auto simp: Map_get_def map_add_def split: option.splits)

lemma Map_get_promote:
  "Map_get m k = Some v \<Longrightarrow> Map_get (Map_delete m k @ [(k, v)]) k' = Map_get m k'"
  by (cases "k' = k") (simp_all add: Map_get_append Map_get_delete_same Map_get_delete_other split: option.splits)

lemma Map_get_None_delete: "Map_get m k' = None \<Longrightarrow> Map_get (Map_delete m k) k' = None"
  by (cases "k' = k") (simp_all add: Map_get_delete_same Map_get_delete_other)

lemma LRUCache_get_lookup:
  "Map_get (entries (snd (LRUCache_get c k))) k' = Map_get (entries c) k'"
proof (cases "Map_get (entries c) k")
  case None
  then show ?thesis by (simp add: LRUCache_get_miss)
next
  case (Some v)
  then show ?thesis by (simp add: LRUCache_get_entries Map_get_promote)
qed

lemma LRUCache_get_fst: "fst (LRUCache_get c k) = Map_get (entries c) k"
  by (simp add: LRUCache_get_def split: option.splits)

lemma LRUCache_set_entries_absent:
  "\<exists>m. entries (LRUCache_set c k v) = m @ [(k, v)] \<and> \<not> Map_has m k
       \<and> (\<forall>k'. Map_get (entries c) k' = None \<longrightarrow> Map_get m k' = None)"
proof (cases "Map_has (entries c) k")
  case True
  then show ?thesis
    by (auto simp: LRUCache_set_present Map_has_delete Map_get_None_delete)
next
  case False
  show ?thesis
  proof (cases "Map_first_key (entries c)")
    case None
    then show ?thesis using False
      by (auto simp: LRUCache_set_def Let_def Map_set_absent)
  next
    case (Some k0)
    have "\<not> Map_has (Map_delete (entries c) k0) k"
      using False by (simp add: Map_has_def Map_delete_keys)
    then show ?thesis using False Some
      by (auto simp: LRUCache_set_def Let_def Map_set_absent Map_get_None_delete)
  qed
qed

lemma Map_get_absent: "\<not> Map_has m k \<Longrightarrow> Map_get m k = None"
  by (simp add: Map_get_def Map_has_def map_of_eq_None_iff)

lemma LRUCache_set_lookup_same: "Map_get (entries (LRUCache_set c k v)) k = Some v"
proof -
  obtain m where "entries (LRUCache_set c k v) = m @ [(k, v)]" "\<not> Map_has m k"
    using LRUCache_set_entries_absent[of c k v] by blast
  then show ?thesis by (simp add: Map_get_append Map_get_absent)
qed

lemma LRUCache_set_lookup_other:
  "k' \<noteq> k \<Longrightarrow> Map_get (entries c) k' = None \<Longrightarrow> Map_get (entries (LRUCache_set c k v)) k' = None"
proof -
  assume a: "k' \<noteq> k" "Map_get (entries c) k' = None"
  obtain m where "entries (LRUCache_set c k v) = m @ [(k, v)]"
      "\<forall>k'. Map_get (entries c) k' = None \<longrightarrow> Map_get m k' = None"
    using LRUCache_set_entries_absent[of c k v] by blast
  then show ?thesis using a by (simp add: Map_get_append)
qed

lemma LRUCache_set_values:
  "kv \<in> set (entries (LRUCache_set c k v)) \<Longrightarrow> kv = (k, v) \<or> kv \<in> set (entries c)"
  by (auto simp: LRUCache_set_def Let_def Map_set_def Map_delete_def Map_first_key_def
      split: if_splits option.splits list.splits)

lemma LRUCache_get_values:
  "kv \<in> set (entries (snd (LRUCache_get c k))) \<Longrightarrow> kv \<in> set (entries c)"
  by (auto simp: LRUCache_get_def Map_set_def Map_delete_def Map_get_def
      split: if_splits option.splits dest: map_of_SomeD)

subsection \<open>The branches of the conversion\<close>

lemma convert_empty:
  "trim x = [] \<Longrightarrow> convertTailwindToCSS b p d x = (emptyResult, p, d)"
  by (simp add: convertTailwindToCSS_def emptyResult_def)

lemma convert_too_long:
  "trim x \<noteq> [] \<Longrightarrow> int (length x) > maxInputLength (config p) \<Longrightarrow>
   convertTailwindToCSS b p d x = (inputTooLong (maxInputLength (config p)), p, d)"
  by (simp add: convertTailwindToCSS_def exceedsMaxLength_def)

lemma convert_hit:
  "trim x \<noteq> [] \<Longrightarrow> int (length x) \<le> maxInputLength (config p) \<Longrightarrow>
   Map_get (entries (cache p)) (trim x) = Some r \<Longrightarrow>
   convertTailwindToCSS b p d x = (r, p\<lparr>cache := snd (LRUCache_get (cache p) (trim x))\<rparr>, d)"
  by (simp add: convertTailwindToCSS_def exceedsMaxLength_def LRUCache_get_def Let_def)

lemma convert_hasError:
  "trim x \<noteq> [] \<Longrightarrow> int (length x) \<le> maxInputLength (config p) \<Longrightarrow>
   Map_get (entries (cache p)) (trim x) = None \<Longrightarrow> hasError (validateInput x) \<Longrightarrow>
   convertTailwindToCSS b p d x = (validateInput x, p, d)"
  by (simp add: convertTailwindToCSS_def exceedsMaxLength_def LRUCache_get_def Let_def)

lemma convert_throw:
  "trim x \<noteq> [] \<Longrightarrow> int (length x) \<le> maxInputLength (config p) \<Longrightarrow>
   Map_get (entries (cache p)) (trim x) = None \<Longrightarrow> \<not> hasError (validateInput x) \<Longrightarrow>
   extractAndFormat b d (sanitizeInput x) = (Inl e, d') \<Longrightarrow>
   convertTailwindToCSS b p d x = (\<lparr>css = [], error = Some (formatError e), warnings = None\<rparr>, p, d')"
  by (simp add: convertTailwindToCSS_def exceedsMaxLength_def LRUCache_get_def Let_def)

lemma convert_success:
  "trim x \<noteq> [] \<Longrightarrow> int (length x) \<le> maxInputLength (config p) \<Longrightarrow>
   Map_get (entries (cache p)) (trim x) = None \<Longrightarrow> \<not> hasError (validateInput x) \<Longrightarrow>
   extractAndFormat b d (sanitizeInput x) = (Inr t, d') \<Longrightarrow>
   convertTailwindToCSS b p d x =
     (successResult (sanitizeInput x) t,
      p\<lparr>cache := LRUCache_set (cache p) (trim x) (successResult (sanitizeInput x) t)\<rparr>, d')"
  by (simp add: convertTailwindToCSS_def exceedsMaxLength_def LRUCache_get_def successResult_def Let_def)

lemma convert_cases [consumes 1, case_names empty too_long hit hasError throw success]:
  assumes "convertTailwindToCSS b p d x = (r, p', d')"
  obtains
    "trim x = []" "r = emptyResult" "p' = p" "d' = d"
  | "trim x \<noteq> []" "int (length x) > maxInputLength (config p)"
      "r = inputTooLong (maxInputLength (config p))" "p' = p" "d' = d"
  | "trim x \<noteq> []" "int (length x) \<le> maxInputLength (config p)"
      "Map_get (entries (cache p)) (trim x) = Some r"
      "p' = p\<lparr>cache := snd (LRUCache_get (cache p) (trim x))\<rparr>" "d' = d"
  | "trim x \<noteq> []" "int (length x) \<le> maxInputLength (config p)"
      "Map_get (entries (cache p)) (trim x) = None" "hasError (validateInput x)"
      "r = validateInput x" "p' = p" "d' = d"
  | e where "trim x \<noteq> []" "int (length x) \<le> maxInputLength (config p)"
      "Map_get (entries (cache p)) (trim x) = None" "\<not> hasError (validateInput x)"
      "extractAndFormat b d (sanitizeInput x) = (Inl e, d')"
      "r = \<lparr>css = [], error = Some (formatError e), warnings = None\<rparr>" "p' = p"
  | t where "trim x \<noteq> []" "int (length x) \<le> maxInputLength (config p)"
      "Map_get (entries (cache p)) (trim x) = None" "\<not> hasError (validateInput x)"
      "extractAndFormat b d (sanitizeInput x) = (Inr t, d')"
      "r = successResult (sanitizeInput x) t"
      "p' = p\<lparr>cache := LRUCache_set (cache p) (trim x) r\<rparr>"
proof (cases "trim x = []")
  case True
  then have "convertTailwindToCSS b p d x = (emptyResult, p, d)" by (rule convert_empty)
  with assms have "r = emptyResult" "p' = p" "d' = d" by auto
  then show ?thesis using True that(1) by blast
next
  case ne: False
  show ?thesis
  proof (cases "int (length x) > maxInputLength (config p)")
    case True
    have "convertTailwindToCSS b p d x = (inputTooLong (maxInputLength (config p)), p, d)"
      using ne True by (rule convert_too_long)
    with assms have "r = inputTooLong (maxInputLength (config p))" "p' = p" "d' = d"
      by auto
    then show ?thesis using ne True that(2) by blast
  next
    case False
    then have len: "int (length x) \<le> maxInputLength (config p)" by simp
    show ?thesis
    proof (cases "Map_get (entries (cache p)) (trim x)")
      case (Some r0)
      have "convertTailwindToCSS b p d x
              = (r0, p\<lparr>cache := snd (LRUCache_get (cache p) (trim x))\<rparr>, d)"
        using ne len Some by (rule convert_hit)
      with assms have "r = r0" "p' = p\<lparr>cache := snd (LRUCache_get (cache p) (trim x))\<rparr>"
          "d' = d" by auto
      then show ?thesis using ne len Some that(3) by blast
    next
      case None
      show ?thesis
      proof (cases "hasError (validateInput x)")
        case True
        have "convertTailwindToCSS b p d x = (validateInput x, p, d)"
          using ne len None True by (rule convert_hasError)
        with assms have "r = validateInput x" "p' = p" "d' = d" by auto
        then show ?thesis using ne len None True that(4) by blast
      next
        case ok: False
        obtain res d1 where ef: "extractAndFormat b d (sanitizeInput x) = (res, d1)"
          by (cases "extractAndFormat b d (sanitizeInput x)") auto
        show ?thesis
        proof (cases res)
          case (Inl e)
          have "convertTailwindToCSS b p d x
                  = (\<lparr>css = [], error = Some (formatError e), warnings = None\<rparr>, p, d1)"
            using ne len None ok ef[unfolded Inl] by (rule convert_throw)
          with assms have "r = \<lparr>css = [], error = Some (formatError e), warnings = None\<rparr>"
              "p' = p" "d1 = d'" by auto
          then show ?thesis using ne len None ok ef Inl that(5) by blast
        next
          case (Inr t)
          have "convertTailwindToCSS b p d x
                  = (successResult (sanitizeInput x) t,
                     p\<lparr>cache := LRUCache_set (cache p) (trim x)
                                  (successResult (sanitizeInput x) t)\<rparr>, d1)"
            using ne len None ok ef[unfolded Inr] by (rule convert_success)
          with assms have "r = successResult (sanitizeInput x) t"
              "p' = p\<lparr>cache := LRUCache_set (cache p) (trim x) r\<rparr>" "d1 = d'" by auto
          then show ?thesis using ne len None ok ef Inr that(6) by blast
        qed
      qed
    qed
  qed
qed

subsection \<open>Browser calls\<close>

lemma extractAndFormat_calls:
  "extractAndFormat b d s = (res, d') \<Longrightarrow> \<exists>cs. calls d' = calls d @ CreateElement # cs"
  by (auto simp: extractAndFormat_def createVirtualElement_def extractComputedStyles_def
      cleanupVirtualElement_def Let_def split: option.splits sum.splits if_splits prod.splits)

lemma extractAndFormat_calls_neq:
  "extractAndFormat b d s = (res, d') \<Longrightarrow> calls d' \<noteq> calls d"
  using extractAndFormat_calls by fastforce

lemma error_successResult [simp]: "error (successResult s t) = None"
  by (simp add: successResult_def Let_def)

lemma hasError_error: "hasError v \<Longrightarrow> error v \<noteq> None"
  by (simp add: hasError_def)

lemma config_get [simp]: "config (p\<lparr>cache := c\<rparr>) = config p"
  by simp

subsection \<open>Calling twice\<close>

lemma extractAndFormat_fst:
  "fst (extractAndFormat b d s) =
     (case createElement_throws b of
        Some e \<Rightarrow> Inl e
      | None \<Rightarrow>
          (case appendChild_throws b of
             Some e \<Rightarrow> Inl e
           | None \<Rightarrow>
               (case getComputedStyle_result b s of
                  Inl e \<Rightarrow> Inl e
                | Inr styles \<Rightarrow> formatCSS styles)))"
proof (cases "createElement_throws b")
  case (Some e)
  then show ?thesis by (simp add: extractAndFormat_def createVirtualElement_def Let_def)
next
  case None
  show ?thesis
  proof (cases "appendChild_throws b")
    case (Some e)
    then show ?thesis using None
      by (simp add: extractAndFormat_def createVirtualElement_def Let_def)
  next
    case na: None
    show ?thesis
    proof (cases "getComputedStyle_result b s")
      case (Inl e)
      then show ?thesis using None na
        by (simp add: extractAndFormat_def createVirtualElement_def extractComputedStyles_def
            Let_def)
    next
      case (Inr styles)
      then show ?thesis using None na
        by (cases "formatCSS styles")
           (simp_all add: extractAndFormat_def createVirtualElement_def
              extractComputedStyles_def Let_def)
    qed
  qed
qed

lemma extractAndFormat_same_browser:
  "extractAndFormat b d s = (res, d1) \<Longrightarrow> \<exists>d2. extractAndFormat b d' s = (res, d2)"
  using extractAndFormat_fst[of b d s] extractAndFormat_fst[of b d' s]
  by (cases "extractAndFormat b d' s") simp

text \<open>
  C5, as amended. For any fixed input, converting it twice in succession, the browser
  answering the second call as it answered the first, returns value-equal results. When
  the first conversion did not end in an exception caught from the browser (its result
  carries no error, or it made no browser call), the second call makes no browser call,
  whatever the browser would now answer: the document, call log included, is unchanged.
  When the first conversion did end in such an exception, the second call calls the
  browser again.
\<close>

theorem convert_twice:
  assumes first: "convertTailwindToCSS b p d x = (r1, p1, d1)"
  shows "fst (convertTailwindToCSS b p1 d1 x) = r1
     \<and> (error r1 = None \<or> calls d1 = calls d \<longrightarrow>
          (\<exists>p2. convertTailwindToCSS b2 p1 d1 x = (r1, p2, d1)))
     \<and> (error r1 \<noteq> None \<and> calls d1 \<noteq> calls d \<longrightarrow>
          calls (snd (snd (convertTailwindToCSS b p1 d1 x))) \<noteq> calls d1)"
  using first
proof (cases rule: convert_cases)
  case empty
  then show ?thesis by (simp add: convert_empty)
next
  case too_long
  then show ?thesis by (simp add: convert_too_long)
next
  case hit
  have "Map_get (entries (cache p1)) (trim x) = Some r1"
    using hit by (simp add: LRUCache_get_lookup)
  then have "convertTailwindToCSS b' p1 d1 x
               = (r1, p1\<lparr>cache := snd (LRUCache_get (cache p1) (trim x))\<rparr>, d1)" for b'
    using hit by (simp add: convert_hit)
  then show ?thesis using hit by simp
next
  case hasError
  then show ?thesis by (simp add: convert_hasError)
next
  case (throw e)
  obtain d2 where again: "extractAndFormat b d1 (sanitizeInput x) = (Inl e, d2)"
    using extractAndFormat_same_browser[OF throw(5)] by blast
  have second: "convertTailwindToCSS b p1 d1 x = (r1, p1, d2)"
    using throw again convert_throw[of x p b d1 e d2] by simp
  have "calls d1 \<noteq> calls d" using throw(5) by (rule extractAndFormat_calls_neq)
  moreover have "calls d2 \<noteq> calls d1" using again by (rule extractAndFormat_calls_neq)
  ultimately show ?thesis using second throw by simp
next
  case (success t)
  have "Map_get (entries (cache p1)) (trim x) = Some r1"
    using success by (simp add: LRUCache_set_lookup_same)
  then have "convertTailwindToCSS b' p1 d1 x
               = (r1, p1\<lparr>cache := snd (LRUCache_get (cache p1) (trim x))\<rparr>, d1)" for b'
    using success by (simp add: convert_hit)
  then show ?thesis using success by simp
qed

subsection \<open>Failures and the cache\<close>

lemma Map_get_in_entries: "Map_get m k = Some v \<Longrightarrow> (k, v) \<in> set m"
  by (simp add: Map_get_def map_of_SomeD)

lemma no_cached_errors_convert:
  assumes "no_cached_errors p" "convertTailwindToCSS b p d x = (r, p', d')"
  shows "no_cached_errors p'"
  using assms(2)
proof (cases rule: convert_cases)
  case hit
  then show ?thesis using assms(1)
    by (auto simp: no_cached_errors_def dest!: LRUCache_get_values)
next
  case (success t)
  then show ?thesis using assms(1)
    by (auto simp: no_cached_errors_def dest!: LRUCache_set_values)
qed (use assms(1) in simp_all)

lemma reachable_no_cached_errors: "reachable A p \<Longrightarrow> no_cached_errors p"
proof (induction rule: reachable.induct)
  case (reachable_new cfg)
  then show ?case by (simp add: no_cached_errors_def CSSProcessor_new_def LRUCache_new_def)
next
  case (reachable_convert p b d classes r p' d')
  then show ?case using no_cached_errors_convert by blast
next
  case (reachable_clear p)
  then show ?case by (simp add: no_cached_errors_def clearCache_def LRUCache_clear_def)
qed

text \<open>
  C6. On every processor that conversions and cache resets can produce, a conversion
  whose result carries an error leaves the processor, and so the cache with its contents
  and order, exactly as it was: the failure is not stored and the same input is evaluated
  again when retried.
\<close>

theorem failed_conversion_not_cached:
  assumes "reachable A p" "convertTailwindToCSS b p d x = (r, p', d')" "error r \<noteq> None"
  shows "p' = p"
  using assms(2)
proof (cases rule: convert_cases)
  case hit
  have "no_cached_errors p" using assms(1) by (rule reachable_no_cached_errors)
  moreover have "(trim x, r) \<in> set (entries (cache p))"
    using hit(3) by (rule Map_get_in_entries)
  ultimately have "error r = None" by (auto simp: no_cached_errors_def)
  then show ?thesis using assms(3) by simp
next
  case (success t)
  then show ?thesis using assms(3) by simp
qed simp_all

subsection \<open>Thrown values\<close>

lemma formatError_unrecognized:
  "\<not> recognized e \<Longrightarrow>
   formatError e = (case e of JsError name message \<Rightarrow> message
                    | JsOther v \<Rightarrow> ''An unexpected error occurred during CSS conversion.'')"
  by (cases e) (simp_all add: formatError_def recognized_def)

text \<open>
  C9, as amended. When creating the element, reading its style or formatting throws a value
  that matches none of the three recognized patterns, the conversion returns a result (no
  exception leaves it) with empty css, the cache unchanged, and as error: the generic
  message when the value is not an \<open>Error\<close>, and the error's own message when it is one.
\<close>

theorem unrecognized_failure_reported:
  assumes "trim x \<noteq> []" "\<not> exceedsMaxLength (config p) x"
      "Map_get (entries (cache p)) (trim x) = None" "\<not> hasError (validateInput x)"
      "extractAndFormat b d (sanitizeInput x) = (Inl e, d')" "\<not> recognized e"
  shows "convertTailwindToCSS b p d x =
           (\<lparr>css = [],
             error = Some (case e of
                             JsError name message \<Rightarrow> message
                           | JsOther v \<Rightarrow> ''An unexpected error occurred during CSS conversion.''),
             warnings = None\<rparr>, p, d')"
  using assms convert_throw[of x p b d e d'] formatError_unrecognized[of e]
  by (simp add: exceedsMaxLength_def)

lemma show_int_10000: "show_int 10000 = ''10000''"
  by (simp add: show_int_def show_nat.simps digit_char_def)

lemma inputTooLong_default:
  "inputTooLong (maxInputLength defaultConfig) =
     \<lparr>css = [], error = Some ''Input too long. Maximum 10000 characters allowed.'',
      warnings = None\<rparr>"
  by (simp add: inputTooLong_def defaultConfig_def show_int_10000)

text \<open>
  C4, as amended. With the default configuration, every input longer than 10,000 characters
  whose trimmed text is not empty fails with the input-too-long error naming the limit
  10000, whatever else it contains, and leaves the processor and the document unchanged.
  An input of exactly 10,000 characters does not trip the length check: the check's
  condition is false, and such an input reaches the cache lookup.
\<close>

theorem length_boundary:
  "(config p = defaultConfig \<and> 10000 < length x \<and> trim x \<noteq> [] \<longrightarrow>
      convertTailwindToCSS b p d x =
        (\<lparr>css = [], error = Some ''Input too long. Maximum 10000 characters allowed.'',
          warnings = None\<rparr>, p, d))
   \<and> (length x = 10000 \<longrightarrow> \<not> exceedsMaxLength defaultConfig x)
   \<and> (config p = defaultConfig \<and> length x = 10000 \<and> trim x \<noteq> []
        \<and> Map_get (entries (cache p)) (trim x) = Some r \<longrightarrow>
      fst (convertTailwindToCSS b p d x) = r)"
proof -
  have a: "convertTailwindToCSS b p d x =
        (\<lparr>css = [], error = Some ''Input too long. Maximum 10000 characters allowed.'',
          warnings = None\<rparr>, p, d)"
    if "config p = defaultConfig" "10000 < length x" "trim x \<noteq> []"
  proof -
    have "int (length x) > maxInputLength (config p)"
      using that by (simp add: defaultConfig_def)
    then show ?thesis using that convert_too_long[of x p b d]
      by (simp add: inputTooLong_default)
  qed
  have b: "\<not> exceedsMaxLength defaultConfig x" if "length x = 10000"
    using that by (simp add: exceedsMaxLength_def defaultConfig_def)
  have c: "fst (convertTailwindToCSS b p d x) = r"
    if "config p = defaultConfig" "length x = 10000" "trim x \<noteq> []"
       "Map_get (entries (cache p)) (trim x) = Some r"
    using that convert_hit[of x p r b d] by (simp add: defaultConfig_def)
  show ?thesis using a b c by blast
qed

lemma dropWhile_replicate: "P c \<Longrightarrow> dropWhile P (replicate n c) = []"
  by (induction n) simp_all

lemma trim_spaces: "trim (replicate n (CHR '' '')) = []"
proof -
  have w: "isWhiteSpace (CHR '' '')" by (simp add: isWhiteSpace_def)
  have "dropWhile isWhiteSpace (replicate n (CHR '' '')) = []"
    using w by (rule dropWhile_replicate)
  then show ?thesis by (simp add: trim_def)
qed

lemma trim_id:
  assumes "s \<noteq> []" "\<not> isWhiteSpace (hd s)" "\<not> isWhiteSpace (last s)"
  shows "trim s = s"
proof -
  have a: "dropWhile isWhiteSpace s = s" using assms(1,2) by (cases s) simp_all
  obtain ys y where s: "s = ys @ [y]" using assms(1) by (cases s rule: rev_cases) auto
  have b: "dropWhile isWhiteSpace (rev s) = rev s"
    using assms(3) by (simp add: s)
  show ?thesis by (simp add: trim_def a b)
qed

lemma trim_replicate_a: "0 < n \<Longrightarrow> trim (replicate n (CHR ''a'')) = replicate n (CHR ''a'')"
  by (rule trim_id) (simp_all add: isWhiteSpace_def)

theorem length_boundary_counterexample:
  "length (replicate 10001 (CHR '' '')) = 10001
   \<and> convertTailwindToCSS (mockBrowser []) (CSSProcessor_new defaultConfig) emptyDocument
        (replicate 10001 (CHR '' ''))
       = (\<lparr>css = [], error = None, warnings = None\<rparr>, CSSProcessor_new defaultConfig, emptyDocument)"
proof -
  have "convertTailwindToCSS (mockBrowser []) (CSSProcessor_new defaultConfig) emptyDocument
        (replicate 10001 (CHR '' ''))
       = (emptyResult, CSSProcessor_new defaultConfig, emptyDocument)"
    using trim_spaces by (rule convert_empty)
  then show ?thesis unfolding emptyResult_def by (simp only: length_replicate simp_thms)
qed

theorem length_boundary_witness:
  "config (CSSProcessor_new defaultConfig) = defaultConfig
   \<and> 10000 < length (replicate 10001 (CHR ''a''))
   \<and> trim (replicate 10001 (CHR ''a'')) \<noteq> []
   \<and> convertTailwindToCSS (mockBrowser []) (CSSProcessor_new defaultConfig) emptyDocument
        (replicate 10001 (CHR ''a''))
       = (\<lparr>css = [], error = Some ''Input too long. Maximum 10000 characters allowed.'',
           warnings = None\<rparr>, CSSProcessor_new defaultConfig, emptyDocument)
   \<and> length (replicate 10000 (CHR ''a'')) = 10000
   \<and> \<not> exceedsMaxLength defaultConfig (replicate 10000 (CHR ''a''))"
proof -
  have c: "config (CSSProcessor_new defaultConfig) = defaultConfig"
    by (simp add: CSSProcessor_new_def)
  have "replicate 10001 (CHR ''a'') \<noteq> []"
    unfolding replicate_empty by simp
  moreover have "trim (replicate 10001 (CHR ''a'')) = replicate 10001 (CHR ''a'')"
    by (rule trim_replicate_a) simp
  ultimately have t: "trim (replicate 10001 (CHR ''a'')) \<noteq> []" by metis
  have l: "10000 < length (replicate 10001 (CHR ''a''))"
    unfolding length_replicate by simp
  have l2: "length (replicate 10000 (CHR ''a'')) = 10000" by (rule length_replicate)
  show ?thesis
    using length_boundary[of "CSSProcessor_new defaultConfig" "replicate 10001 (CHR ''a'')"
        "mockBrowser []" emptyDocument]
      length_boundary[of _ "replicate 10000 (CHR ''a'')"] c t l l2
    by blast
qed

subsection \<open>The cache key\<close>

lemma convert_stores_under_trim:
  assumes "trim x \<noteq> []" "\<not> exceedsMaxLength (config p) x"
      "convertTailwindToCSS b p d x = (r, p1, d1)" "error r = None"
  shows "Map_get (entries (cache p1)) (trim x) = Some r \<and> config p1 = config p"
  using assms(3)
proof (cases rule: convert_cases)
  case empty
  then show ?thesis using assms(1) by simp
next
  case too_long
  then show ?thesis using assms(2) by (simp add: exceedsMaxLength_def)
next
  case hit
  then show ?thesis by (simp add: LRUCache_get_lookup)
next
  case hasError
  then show ?thesis using assms(4) by (simp add: hasError_def)
next
  case (throw e)
  then show ?thesis using assms(4) by simp
next
  case (success t)
  then show ?thesis by (simp add: LRUCache_set_lookup_same)
qed

lemma convert_keeps_absent:
  assumes "convertTailwindToCSS b p d x = (r, p1, d1)"
      "Map_get (entries (cache p)) k = None" "k \<noteq> trim x"
  shows "Map_get (entries (cache p1)) k = None"
  using assms(1)
proof (cases rule: convert_cases)
  case hit
  then show ?thesis using assms(2) by (simp add: LRUCache_get_lookup)
next
  case (success t)
  then show ?thesis using assms(2,3) by (simp add: LRUCache_set_lookup_other)
qed (use assms(2) in simp_all)

lemma convert_miss_not_served:
  assumes "Map_get (entries (cache p)) (trim y) = None" "error r = None" "trim y \<noteq> []"
      "\<not> exceedsMaxLength (config p) y"
  shows "convertTailwindToCSS b p d y \<noteq> (r, p2, d)"
proof
  assume "convertTailwindToCSS b p d y = (r, p2, d)"
  then show False
  proof (cases rule: convert_cases)
    case empty
    then show ?thesis using assms(3) by simp
  next
    case too_long
    then show ?thesis using assms(4) by (simp add: exceedsMaxLength_def)
  next
    case hit
    then show ?thesis using assms(1) by simp
  next
    case hasError
    then show ?thesis using assms(2) by (simp add: hasError_def)
  next
    case (throw e)
    then show ?thesis using assms(2) by simp
  next
    case (success t)
    then show ?thesis using extractAndFormat_calls_neq by blast
  qed
qed

text \<open>
  C8, as amended. Let \<open>x\<close> and \<open>y\<close> both pass the emptiness and length checks, let the
  conversion of \<open>x\<close> have returned a result without error, and let the cache have held
  nothing under the trimmed text of \<open>y\<close> before, unless it is the trimmed text of \<open>x\<close>.
  Then the conversion of \<open>y\<close> that follows is answered from the entry of \<open>x\<close> (the same
  result, no browser call) if and only if the two trimmed texts are identical.
\<close>

theorem cache_key_is_trimmed_input:
  assumes x: "trim x \<noteq> []" "\<not> exceedsMaxLength (config p) x"
      and y: "trim y \<noteq> []" "\<not> exceedsMaxLength (config p) y"
      and first: "convertTailwindToCSS b1 p d x = (r, p1, d1)" "error r = None"
      and fresh: "Map_get (entries (cache p)) (trim y) = None \<or> trim y = trim x"
  shows "(\<exists>p2. convertTailwindToCSS b2 p1 d1 y = (r, p2, d1)) \<longleftrightarrow> trim y = trim x"
proof
  assume served: "\<exists>p2. convertTailwindToCSS b2 p1 d1 y = (r, p2, d1)"
  show "trim y = trim x"
  proof (rule ccontr)
    assume ne: "trim y \<noteq> trim x"
    then have "Map_get (entries (cache p)) (trim y) = None" using fresh by simp
    then have miss: "Map_get (entries (cache p1)) (trim y) = None"
      using convert_keeps_absent[OF first(1), of "trim y"] ne by simp
    have cfg: "config p1 = config p"
      using convert_stores_under_trim[OF x first] by simp
    have "convertTailwindToCSS b2 p1 d1 y \<noteq> (r, p2, d1)" for p2
      using miss first(2) y(1) y(2)[folded cfg] by (rule convert_miss_not_served)
    then show False using served by blast
  qed
next
  assume eq: "trim y = trim x"
  have st: "Map_get (entries (cache p1)) (trim y) = Some r" "config p1 = config p"
    using convert_stores_under_trim[OF x first] eq by simp_all
  have "int (length y) \<le> maxInputLength (config p1)"
    using y(2) st(2) by (simp add: exceedsMaxLength_def)
  then have "convertTailwindToCSS b2 p1 d1 y
               = (r, p1\<lparr>cache := snd (LRUCache_get (cache p1) (trim y))\<rparr>, d1)"
    using y(1) st(1) by (intro convert_hit)
  then show "\<exists>p2. convertTailwindToCSS b2 p1 d1 y = (r, p2, d1)" by blast
qed

subsection \<open>Inputs made of special characters\<close>

lemma special_not_white: "isSpecialChar c \<Longrightarrow> \<not> isWhiteSpace c"
  by (auto simp: isSpecialChar_def isWhiteSpace_def)

lemma white_not_special: "isWhiteSpace c \<Longrightarrow> \<not> isSpecialChar c"
  using special_not_white by blast

lemma trim_specials:
  assumes "x \<noteq> []" "\<forall>c \<in> set x. isSpecialChar c"
  shows "trim x = x"
proof (rule trim_id)
  show "x \<noteq> []" by fact
  have "hd x \<in> set x" "last x \<in> set x" using assms(1) by simp_all
  then show "\<not> isWhiteSpace (hd x)" "\<not> isWhiteSpace (last x)"
    using assms(2) special_not_white by blast+
qed

lemma trim_decomposition:
  "\<exists>w1 w2. s = w1 @ trim s @ w2 \<and> (\<forall>c \<in> set w1. isWhiteSpace c) \<and> (\<forall>c \<in> set w2. isWhiteSpace c)"
proof -
  let ?u = "dropWhile isWhiteSpace s"
  let ?w1 = "takeWhile isWhiteSpace s"
  let ?w2 = "rev (takeWhile isWhiteSpace (rev ?u))"
  have "trim s @ ?w2 = rev (takeWhile isWhiteSpace (rev ?u) @ dropWhile isWhiteSpace (rev ?u))"
    unfolding trim_def by (simp only: rev_append)
  also have "\<dots> = rev (rev ?u)" by (simp only: takeWhile_dropWhile_id)
  also have "\<dots> = ?u" by simp
  finally have u: "?u = trim s @ ?w2" by simp
  have "s = ?w1 @ ?u" by simp
  then have "s = ?w1 @ trim s @ ?w2" using u by simp
  moreover have "\<forall>c \<in> set ?w1. isWhiteSpace c" by (auto dest: set_takeWhileD)
  moreover have "\<forall>c \<in> set ?w2. isWhiteSpace c" by (auto dest: set_takeWhileD)
  ultimately show ?thesis by blast
qed

lemma collapse_all_white:
  assumes "\<forall>c \<in> set u. isWhiteSpace c"
  shows "trim (collapse_whitespace u) = []"
proof (cases u)
  case Nil
  then show ?thesis by (simp add: trim_def)
next
  case (Cons c cs)
  have dw: "dropWhile isWhiteSpace cs = []" using Cons assms by simp
  have "isWhiteSpace c" using Cons assms by simp
  then have "collapse_whitespace u = [CHR '' '']" unfolding Cons by (simp add: dw)
  then show ?thesis by (simp add: trim_def isWhiteSpace_def)
qed

lemma sanitize_specials_key:
  assumes "\<forall>c \<in> set (trim s). isSpecialChar c"
  shows "sanitizeInput s = []"
proof -
  obtain w1 w2 where d: "s = w1 @ trim s @ w2"
      and w: "\<forall>c \<in> set w1. isWhiteSpace c" "\<forall>c \<in> set w2. isWhiteSpace c"
    using trim_decomposition by blast
  have "filter (\<lambda>c. \<not> isSpecialChar c) s
          = filter (\<lambda>c. \<not> isSpecialChar c) w1 @ filter (\<lambda>c. \<not> isSpecialChar c) (trim s)
            @ filter (\<lambda>c. \<not> isSpecialChar c) w2"
    by (subst d) simp
  moreover have "filter (\<lambda>c. \<not> isSpecialChar c) (trim s) = []" using assms by simp
  ultimately have "\<forall>c \<in> set (filter (\<lambda>c. \<not> isSpecialChar c) s). isWhiteSpace c"
    using w by auto
  then show ?thesis unfolding sanitizeInput_def by (rule collapse_all_white)
qed

lemma sanitize_specials:
  "x \<noteq> [] \<Longrightarrow> \<forall>c \<in> set x. isSpecialChar c \<Longrightarrow> sanitizeInput x = []"
  using sanitize_specials_key[of x] trim_specials[of x] by simp

subsection \<open>The guard on special characters\<close>

lemma rx_search_somewhere: "rx_search r s \<Longrightarrow> \<exists>t. set t \<subseteq> set s \<and> r rx_any t"
proof (induction s)
  case Nil
  then show ?case by auto
next
  case (Cons c cs)
  show ?case
  proof (cases "r rx_any (c # cs)")
    case True
    then show ?thesis by blast
  next
    case False
    then have "rx_search r cs" using Cons.prems by simp
    then obtain t where "set t \<subseteq> set cs" "r rx_any t" using Cons.IH by blast
    then have "set t \<subseteq> set (c # cs)" "r rx_any t" by auto
    then show ?thesis by blast
  qed
qed

lemma rx_lit_chars:
  assumes "rx_lit pat k t" "c \<in> set pat"
  shows "\<exists>d \<in> set t. canonicalize d = canonicalize c"
proof -
  have "canonicalize c \<in> set (map canonicalize pat)" using assms(2) by simp
  also have "\<dots> = set (map canonicalize (take (length pat) t))"
    using assms(1) by (simp add: rx_lit_def)
  also have "\<dots> \<subseteq> canonicalize ` set t" by (auto dest: in_set_takeD)
  finally show ?thesis by auto
qed

lemma canonicalize_simps:
  "canonicalize (CHR ''s'') = CHR ''S''" "canonicalize (CHR ''j'') = CHR ''J''"
  "canonicalize (CHR ''o'') = CHR ''O''" "canonicalize (CHR ''i'') = CHR ''I''"
  "canonicalize (CHR ''e'') = CHR ''E''"
  by (simp_all add: canonicalize_def)

lemma special_cases:
  "isSpecialChar d \<longleftrightarrow> d = CHR ''<'' \<or> d = CHR ''>'' \<or> d = CHR ''{'' \<or> d = CHR ''}''
     \<or> d = CHR ''('' \<or> d = CHR '')'' \<or> d = CHR ''['' \<or> d = CHR '']''"
  by (simp add: isSpecialChar_def)

lemma letters_not_special:
  "\<not> isSpecialChar (canonicalize (CHR ''s''))" "\<not> isSpecialChar (canonicalize (CHR ''j''))"
  "\<not> isSpecialChar (canonicalize (CHR ''o''))" "\<not> isSpecialChar (canonicalize (CHR ''i''))"
  "\<not> isSpecialChar (canonicalize (CHR ''e''))"
  by (simp_all add: canonicalize_simps special_cases)

lemma special_canonicalize: "isSpecialChar d \<Longrightarrow> canonicalize d = d"
proof -
  assume "isSpecialChar d"
  then consider "d = CHR ''<''" | "d = CHR ''>''" | "d = CHR ''{''" | "d = CHR ''}''"
    | "d = CHR ''(''" | "d = CHR '')''" | "d = CHR ''[''" | "d = CHR '']''"
    unfolding special_cases by blast
  then show ?thesis by cases (simp_all add: canonicalize_def)
qed

lemma no_match_without_letter:
  assumes all: "\<forall>d \<in> set s. isSpecialChar d"
      and needs: "\<And>k t. r k t \<Longrightarrow> \<exists>d \<in> set t. canonicalize d = canonicalize c"
      and letter: "\<not> isSpecialChar (canonicalize c)"
  shows "\<not> rx_search r s"
proof
  assume "rx_search r s"
  then obtain t where t: "set t \<subseteq> set s" "r rx_any t" using rx_search_somewhere by blast
  then obtain d where "d \<in> set t" "canonicalize d = canonicalize c" using needs by blast
  then show False using all t(1) letter special_canonicalize by fastforce
qed

lemma rx_lit_never:
  assumes "\<forall>d \<in> set s. isSpecialChar d" "c \<in> set pat" "\<not> isSpecialChar (canonicalize c)"
  shows "\<not> rx_search (\<lambda>k. rx_lit pat (f k)) s"
  by (rule no_match_without_letter[OF assms(1) _ assms(3)]) (rule rx_lit_chars[OF _ assms(2)])

lemma validate_specials:
  assumes "\<forall>d \<in> set x. isSpecialChar d" "length x \<le> 10"
  shows "validateInput x = \<lparr>css = [], error = None, warnings = None\<rparr>"
proof -
  have 1: "\<not> rx_search (rx_lit ''<script'') x"
    using rx_lit_never[OF assms(1), of "CHR ''s''" "''<script''" "\<lambda>k. k"]
    by (simp add: letters_not_special)
  have 2: "\<not> rx_search (rx_lit ''javascript:'') x"
    using rx_lit_never[OF assms(1), of "CHR ''j''" "''javascript:''" "\<lambda>k. k"]
    by (simp add: letters_not_special)
  have 3: "\<not> rx_search (\<lambda>k. rx_lit ''on'' (rx_plus isWordChar (rx_star isWhiteSpace (rx_lit ''='' k)))) x"
    using rx_lit_never[OF assms(1), of "CHR ''o''" "''on''"
        "\<lambda>k. rx_plus isWordChar (rx_star isWhiteSpace (rx_lit ''='' k))"]
    by (simp add: letters_not_special)
  have 4: "\<not> rx_search (rx_lit ''<iframe'') x"
    using rx_lit_never[OF assms(1), of "CHR ''i''" "''<iframe''" "\<lambda>k. k"]
    by (simp add: letters_not_special)
  have 5: "\<not> rx_search (rx_lit ''<object'') x"
    using rx_lit_never[OF assms(1), of "CHR ''o''" "''<object''" "\<lambda>k. k"]
    by (simp add: letters_not_special)
  have 6: "\<not> rx_search (rx_lit ''<embed'') x"
    using rx_lit_never[OF assms(1), of "CHR ''e''" "''<embed''" "\<lambda>k. k"]
    by (simp add: letters_not_special)
  have d: "\<not> list_ex (\<lambda>pattern. pattern x) dangerousPatterns"
    using 1 2 3 4 5 6 by (simp add: dangerousPatterns_def)
  have "\<not> length (filter isSpecialChar x) > 10"
    using length_filter_le[of isSpecialChar x] assms(2) by linarith
  then show ?thesis using d by (simp add: validateInput_def Let_def)
qed

subsection \<open>Formatting an unstyled element\<close>

lemma filter_props_subset:
  "filter_props styles ps = Inr qs \<Longrightarrow> set qs \<subseteq> set ps"
proof (induction ps arbitrary: qs)
  case Nil
  then show ?case by simp
next
  case (Cons q qs0)
  then show ?case by (auto split: sum.splits if_splits)
qed

lemma filter_props_total:
  "\<forall>prop \<in> set ps. \<exists>v. styles prop = Inr v \<Longrightarrow> \<exists>qs. filter_props styles ps = Inr qs"
proof (induction ps)
  case Nil
  then show ?case by simp
next
  case (Cons q qs0)
  then obtain v qs where "styles q = Inr v" "filter_props styles qs0 = Inr qs" by auto
  then show ?case by simp
qed

lemma format_rules_total:
  "\<forall>prop \<in> set ps. \<exists>v. styles prop = Inr v \<Longrightarrow> \<exists>rules. format_rules styles ps = Inr rules"
proof (induction ps)
  case Nil
  then show ?case by simp
next
  case (Cons q qs0)
  then obtain v rules where "styles q = Inr v" "format_rules styles qs0 = Inr rules" by auto
  then show ?case by simp
qed

lemma format_rules_unstyled:
  "format_rules styles ps = Inr rules \<Longrightarrow>
   \<forall>prop \<in> set ps. \<forall>v. styles prop = Inr v \<longrightarrow> \<not> isNonDefaultValue prop v \<Longrightarrow> rules = []"
proof (induction ps arbitrary: rules)
  case Nil
  then show ?case by simp
next
  case (Cons q qs0)
  then show ?case by (auto split: sum.splits if_splits)
qed

lemma formatCSS_unstyled:
  assumes "unstyled styles" "formatCSS styles = Inr t"
  shows "t = noStylesComment"
proof -
  obtain qs where qs: "getRelevantCSSProperties styles = Inr qs"
    using assms(2) by (auto simp: formatCSS_def split: sum.splits)
  then obtain rules where rules: "format_rules styles qs = Inr rules"
    using assms(2) by (auto simp: formatCSS_def split: sum.splits)
  have "set qs \<subseteq> set relevantProps"
    using qs filter_props_subset by (simp add: getRelevantCSSProperties_def)
  then have "\<forall>prop \<in> set qs. \<forall>v. styles prop = Inr v \<longrightarrow> \<not> isNonDefaultValue prop v"
    using assms(1) by (auto simp: unstyled_def)
  then have "rules = []" using rules format_rules_unstyled by blast
  then show ?thesis using assms(2) qs rules by (simp add: formatCSS_def)
qed

lemma formatCSS_total:
  assumes "\<forall>prop \<in> set relevantProps. \<exists>v. styles prop = Inr v"
  shows "\<exists>t. formatCSS styles = Inr t"
proof -
  obtain qs where qs: "filter_props styles relevantProps = Inr qs"
    using assms filter_props_total by blast
  then have "set qs \<subseteq> set relevantProps" by (rule filter_props_subset)
  then have "\<forall>prop \<in> set qs. \<exists>v. styles prop = Inr v" using assms by blast
  then obtain rules where "format_rules styles qs = Inr rules"
    using format_rules_total by blast
  then show ?thesis using qs by (simp add: formatCSS_def getRelevantCSSProperties_def)
qed

lemma createVirtualElement_className:
  "createVirtualElement b d s = (Inr el, d1) \<Longrightarrow> className el = s"
  by (auto simp: createVirtualElement_def Let_def split: option.splits)

lemma extractAndFormat_Inr:
  assumes "extractAndFormat b d s = (Inr t, d')"
  shows "\<exists>styles. getComputedStyle_result b s = Inr styles \<and> formatCSS styles = Inr t"
proof -
  obtain r1 d1 where c: "createVirtualElement b d s = (r1, d1)"
    by (cases "createVirtualElement b d s") auto
  show ?thesis
  proof (cases r1)
    case (Inl e)
    then show ?thesis using assms c by (simp add: extractAndFormat_def)
  next
    case (Inr el)
    then have cn: "className el = s" using c createVirtualElement_className by blast
    show ?thesis
    proof (cases "getComputedStyle_result b s")
      case (Inl e)
      then show ?thesis using assms c Inr cn
        by (simp add: extractAndFormat_def extractComputedStyles_def)
    next
      case st: (Inr styles)
      show ?thesis
      proof (cases "formatCSS styles")
        case (Inl e)
        then show ?thesis using assms c Inr cn st
          by (simp add: extractAndFormat_def extractComputedStyles_def)
      next
        case f: (Inr t')
        then have "t' = t" using assms c Inr cn st
          by (simp add: extractAndFormat_def extractComputedStyles_def)
        then show ?thesis using st f by simp
      qed
    qed
  qed
qed

lemma extractAndFormat_unstyled:
  assumes "emptyClassUnstyled b" "extractAndFormat b d [] = (Inr t, d')"
  shows "t = noStylesComment"
proof -
  obtain styles where "getComputedStyle_result b [] = Inr styles" "formatCSS styles = Inr t"
    using extractAndFormat_Inr[OF assms(2)] by blast
  moreover have "unstyled styles"
    using assms(1) calculation(1) by (simp add: emptyClassUnstyled_def)
  ultimately show ?thesis using formatCSS_unstyled by blast
qed

lemma extractAndFormat_resolves:
  assumes "emptyClassUnstyled b" "emptyClassResolves b"
  shows "\<exists>d'. extractAndFormat b d [] = (Inr noStylesComment, d')"
proof -
  obtain styles where st: "getComputedStyle_result b [] = Inr styles"
      "\<forall>prop \<in> set relevantProps. \<exists>v. styles prop = Inr v"
    using assms(2) by (auto simp: emptyClassResolves_def)
  then obtain t where t: "formatCSS styles = Inr t" using formatCSS_total by blast
  have "unstyled styles" using assms(1) st(1) by (simp add: emptyClassUnstyled_def)
  then have tn: "formatCSS styles = Inr noStylesComment" using t formatCSS_unstyled by blast
  have ce: "createElement_throws b = None" "appendChild_throws b = None"
    using assms(2) by (simp_all add: emptyClassResolves_def)
  obtain el d1 where c: "createVirtualElement b d [] = (Inr el, d1)" "className el = []"
    using ce by (simp add: createVirtualElement_def Let_def)
  have "extractComputedStyles b d1 el
          = (Inr styles, d1\<lparr>calls := calls d1 @ [GetComputedStyle (elem_id el)]\<rparr>)"
    using st(1) c(2) by (simp add: extractComputedStyles_def)
  then show ?thesis using c(1) tn by (simp add: extractAndFormat_def)
qed

lemma split_whitespace_Nil: "split_whitespace [] = [[]]"
  by (subst split_whitespace.simps) simp

lemma generateWarnings_no_tokens: "generateWarnings [] t = []"
  unfolding generateWarnings_def split_whitespace_Nil by (simp add: Let_def)

lemma successResult_no_tokens: "successResult [] noStylesComment = noStylesResult"
  by (simp add: successResult_def noStylesResult_def generateWarnings_no_tokens)

subsection \<open>What the cache holds for such inputs\<close>

lemma LRUCache_set_lookup_cases:
  fixes c :: "('k, 'v) LRUCache"
  assumes "Map_get (entries (LRUCache_set c key v)) k = Some w"
  shows "(k = key \<and> w = v) \<or> Map_get (entries c) k = Some w"
proof (cases "k = key")
  case True
  then show ?thesis using assms by (simp add: LRUCache_set_lookup_same)
next
  case False
  have del: "Map_get (Map_delete m k0) k = Some w \<Longrightarrow> Map_get m k = Some w" for m :: "('k \<times> 'v) list" and k0
    by (cases "k = k0") (simp_all add: Map_get_delete_same Map_get_delete_other)
  show ?thesis
  proof (cases "Map_has (entries c) key")
    case True
    then show ?thesis using assms False del[of "entries c" key]
      by (simp add: LRUCache_set_present Map_get_append split: option.splits)
  next
    case nh: False
    show ?thesis
    proof (cases "maxSize c \<le> length (entries c)")
      case True
      show ?thesis
      proof (cases "Map_first_key (entries c)")
        case None
        then show ?thesis using assms False nh True
          by (simp add: LRUCache_set_def Let_def Map_set_absent Map_get_append split: option.splits)
      next
        case (Some k0)
        have "\<not> Map_has (Map_delete (entries c) k0) key"
          using nh by (simp add: Map_has_def Map_delete_keys)
        then show ?thesis using assms False nh True Some del[of "entries c" k0]
          by (simp add: LRUCache_set_def Let_def Map_set_absent Map_get_append split: option.splits)
      qed
    next
      case False
      then show ?thesis using assms \<open>k \<noteq> key\<close> nh
        by (simp add: LRUCache_set_room Map_get_append split: option.splits)
    qed
  qed
qed

lemma specials_cached_convert:
  assumes inv: "\<forall>k v. Map_get (entries (cache p)) k = Some v \<longrightarrow> k \<noteq> []
                  \<longrightarrow> (\<forall>c \<in> set k. isSpecialChar c) \<longrightarrow> v = noStylesResult"
      and b: "emptyClassUnstyled b"
      and conv: "convertTailwindToCSS b p d x = (r, p', d')"
  shows "\<forall>k v. Map_get (entries (cache p')) k = Some v \<longrightarrow> k \<noteq> []
                  \<longrightarrow> (\<forall>c \<in> set k. isSpecialChar c) \<longrightarrow> v = noStylesResult"
  using conv
proof (cases rule: convert_cases)
  case hit
  then show ?thesis using inv by (simp add: LRUCache_get_lookup)
next
  case (success t)
  show ?thesis
  proof (intro allI impI)
    fix k v
    assume kv: "Map_get (entries (cache p')) k = Some v" "k \<noteq> []" "\<forall>c \<in> set k. isSpecialChar c"
    then have "Map_get (entries (LRUCache_set (cache p) (trim x) r)) k = Some v"
      using success by simp
    then consider "k = trim x" "v = r" | "Map_get (entries (cache p)) k = Some v"
      using LRUCache_set_lookup_cases by fastforce
    then show "v = noStylesResult"
    proof cases
      case 1
      then have "sanitizeInput x = []" using kv(3) sanitize_specials_key by blast
      then have "t = noStylesComment" "r = successResult [] t"
        using success b extractAndFormat_unstyled by auto
      then show ?thesis using 1 by (simp add: successResult_no_tokens)
    next
      case 2
      then show ?thesis using inv kv by blast
    qed
  qed
qed (use inv in simp_all)

lemma reachable_specials_cached:
  "reachable emptyClassUnstyled p \<Longrightarrow>
   \<forall>k v. Map_get (entries (cache p)) k = Some v \<longrightarrow> k \<noteq> []
          \<longrightarrow> (\<forall>c \<in> set k. isSpecialChar c) \<longrightarrow> v = noStylesResult"
proof (induction rule: reachable.induct)
  case (reachable_new cfg)
  then show ?case by (simp add: CSSProcessor_new_def LRUCache_new_def Map_get_def)
next
  case (reachable_convert p b d classes r p' d')
  then show ?case using specials_cached_convert by blast
next
  case (reachable_clear p)
  then show ?case by (simp add: clearCache_def LRUCache_clear_def Map_get_def)
qed

text \<open>
  C10. Let the input be non-empty, made only of characters of \<open><>{}()[]\<close>, at most 10 of
  them, and within the length limit. Let the browser resolve no non-default property for
  the empty class string, now and in the conversions that built the processor. Then the
  input is its own trimmed text and passes \<open>validateInput\<close>, sanitization yields the empty
  string, and the conversion returns the no-styles comment as css with no error and no
  warnings, and the cache then holds this result under the trimmed input.
\<close>

theorem special_characters_only_input:
  assumes reach: "reachable emptyClassUnstyled p"
      and b: "emptyClassUnstyled b" "emptyClassResolves b"
      and x: "x \<noteq> []" "\<forall>c \<in> set x. isSpecialChar c" "length x \<le> 10"
      and len: "\<not> exceedsMaxLength (config p) x"
  shows "trim x = x \<and> \<not> hasError (validateInput x) \<and> sanitizeInput x = []
         \<and> (\<exists>p' d'. convertTailwindToCSS b p d x = (noStylesResult, p', d')
                \<and> Map_get (entries (cache p')) (trim x) = Some noStylesResult)"
proof -
  have t: "trim x = x" using x(1,2) by (rule trim_specials)
  have v: "\<not> hasError (validateInput x)"
    using validate_specials[OF x(2,3)] by (simp add: hasError_def)
  have s: "sanitizeInput x = []" using x(1,2) by (rule sanitize_specials)
  have ne: "trim x \<noteq> []" using t x(1) by simp
  have l: "int (length x) \<le> maxInputLength (config p)"
    using len by (simp add: exceedsMaxLength_def)
  have "\<exists>p' d'. convertTailwindToCSS b p d x = (noStylesResult, p', d')
                \<and> Map_get (entries (cache p')) (trim x) = Some noStylesResult"
  proof (cases "Map_get (entries (cache p)) (trim x)")
    case (Some r)
    then have "r = noStylesResult"
      using reachable_specials_cached[OF reach] t x(1,2) by auto
    then have "convertTailwindToCSS b p d x
                 = (noStylesResult, p\<lparr>cache := snd (LRUCache_get (cache p) (trim x))\<rparr>, d)"
      using convert_hit[OF ne l Some] by simp
    moreover have "Map_get (entries (cache (p\<lparr>cache := snd (LRUCache_get (cache p) (trim x))\<rparr>)))
                     (trim x) = Some noStylesResult"
      using Some \<open>r = noStylesResult\<close> by (simp add: LRUCache_get_lookup)
    ultimately show ?thesis by blast
  next
    case None
    obtain d' where ef: "extractAndFormat b d (sanitizeInput x) = (Inr noStylesComment, d')"
      using extractAndFormat_resolves[OF b] s by auto
    have "convertTailwindToCSS b p d x
            = (noStylesResult,
               p\<lparr>cache := LRUCache_set (cache p) (trim x) noStylesResult\<rparr>, d')"
      using convert_success[OF ne l None v ef] s by (simp add: successResult_no_tokens)
    moreover have "Map_get (entries (cache (p\<lparr>cache := LRUCache_set (cache p) (trim x) noStylesResult\<rparr>)))
                     (trim x) = Some noStylesResult"
      by (simp add: LRUCache_set_lookup_same)
    ultimately show ?thesis by blast
  qed
  then show ?thesis using t v s by blast
qed

subsection \<open>Validation does not depend on outer white space\<close>

lemma white_canonicalize: "isWhiteSpace w \<Longrightarrow> canonicalize w = w"
proof -
  assume "isWhiteSpace w"
  then consider "w = CHR 0x09" | "w = CHR 0x0A" | "w = CHR 0x0B" | "w = CHR 0x0C"
    | "w = CHR 0x0D" | "w = CHR 0x20" | "w = CHR 0xA0"
    unfolding isWhiteSpace_def by auto
  then show ?thesis by cases (simp_all add: canonicalize_def)
qed

lemma white_stable_any: "white_stable rx_any"
  by (simp add: white_stable_def rx_any_def)

lemma white_stable_star:
  assumes "white_stable k"
  shows "white_stable (rx_star p k)"
proof -
  have "rx_star p k (t @ [w]) = rx_star p k t" if w: "isWhiteSpace w" for t w
  proof (induction t)
    case Nil
    have "k [w] = k []" using assms w white_stable_def[of k] by (metis append_Nil)
    then show ?case by auto
  next
    case (Cons c cs)
    have "k ((c # cs) @ [w]) = k (c # cs)" using assms w unfolding white_stable_def by blast
    then show ?case using Cons by simp
  qed
  then show ?thesis by (simp add: white_stable_def)
qed

lemma white_stable_plus:
  assumes "white_stable k" "\<And>w. isWhiteSpace w \<Longrightarrow> \<not> p w"
  shows "white_stable (rx_plus p k)"
proof -
  have s: "white_stable (rx_star p k)" using assms(1) by (rule white_stable_star)
  have "rx_plus p k (t @ [w]) = rx_plus p k t" if w: "isWhiteSpace w" for t w
  proof (cases t)
    case Nil
    then show ?thesis using assms(2)[OF w] by (simp add: rx_plus_def)
  next
    case (Cons c cs)
    have "rx_star p k (cs @ [w]) = rx_star p k cs" using s w by (simp add: white_stable_def)
    then show ?thesis using Cons by (simp add: rx_plus_def)
  qed
  then show ?thesis by (simp add: white_stable_def)
qed

lemma white_stable_lit:
  assumes "white_stable k" "pat \<noteq> []"
      "\<And>w. isWhiteSpace w \<Longrightarrow> w \<noteq> canonicalize (last pat)"
  shows "white_stable (rx_lit pat k)"
proof -
  have "rx_lit pat k (t @ [w]) = rx_lit pat k t" if w: "isWhiteSpace w" for t w
  proof (cases "length pat \<le> length t")
    case True
    have "k (drop (length pat) t @ [w]) = k (drop (length pat) t)"
      using assms(1) w by (simp add: white_stable_def)
    then show ?thesis using True by (simp add: rx_lit_def)
  next
    case False
    have "\<not> rx_lit pat k (t @ [w])"
    proof
      assume m: "rx_lit pat k (t @ [w])"
      then have "length pat = Suc (length t)" using False by (simp add: rx_lit_def)
      then have "map canonicalize (t @ [w]) = map canonicalize pat"
        using m by (simp add: rx_lit_def)
      then have "last (map canonicalize (t @ [w])) = last (map canonicalize pat)" by simp
      then have "canonicalize w = canonicalize (last pat)"
        using assms(2) by (simp add: last_map)
      then show False using assms(3)[OF w] white_canonicalize[OF w] by simp
    qed
    then show ?thesis using False by (simp add: rx_lit_def)
  qed
  then show ?thesis by (simp add: white_stable_def)
qed

lemma rx_search_append_white:
  assumes "white_stable (r rx_any)" "\<forall>w \<in> set ws. isWhiteSpace w"
  shows "rx_search r (s @ ws) = rx_search r s"
  using assms(2)
proof (induction ws rule: rev_induct)
  case Nil
  then show ?case by simp
next
  case (snoc w ws)
  have w: "isWhiteSpace w" using snoc.prems by simp
  have one: "rx_search r (u @ [w]) = rx_search r u" for u
  proof (induction u)
    case Nil
    have "r rx_any [w] = r rx_any []" using assms(1) w white_stable_def[of "r rx_any"]
      by (metis append_Nil)
    then show ?case by auto
  next
    case (Cons c cs)
    have "r rx_any ((c # cs) @ [w]) = r rx_any (c # cs)"
      using assms(1) w unfolding white_stable_def by blast
    then show ?case using Cons by simp
  qed
  have "rx_search r (s @ ws @ [w]) = rx_search r ((s @ ws) @ [w])" by simp
  also have "\<dots> = rx_search r (s @ ws)" by (rule one)
  also have "\<dots> = rx_search r s" using snoc by simp
  finally show ?case .
qed

lemma rx_search_prepend_white:
  assumes "\<And>w u. isWhiteSpace w \<Longrightarrow> \<not> r rx_any (w # u)" "\<forall>w \<in> set ws. isWhiteSpace w"
  shows "rx_search r (ws @ s) = rx_search r s"
  using assms(2) by (induction ws) (simp_all add: assms(1))

lemma rx_lit_first:
  assumes "rx_lit (c # pat) k (w # u)"
  shows "canonicalize w = canonicalize c"
  using assms by (simp add: rx_lit_def)

lemma rx_search_trim:
  assumes "white_stable (r rx_any)" "\<And>w u. isWhiteSpace w \<Longrightarrow> \<not> r rx_any (w # u)"
  shows "rx_search r s = rx_search r (trim s)"
proof -
  obtain w1 w2 where d: "s = w1 @ trim s @ w2"
      and w: "\<forall>c \<in> set w1. isWhiteSpace c" "\<forall>c \<in> set w2. isWhiteSpace c"
    using trim_decomposition by blast
  have "rx_search r (w1 @ trim s @ w2) = rx_search r (trim s @ w2)"
    using assms(2) w(1) by (rule rx_search_prepend_white)
  also have "\<dots> = rx_search r (trim s)" using assms(1) w(2) by (rule rx_search_append_white)
  finally show ?thesis using d by simp
qed

lemma white_not_upper:
  assumes "isWhiteSpace w"
  shows "w \<noteq> CHR ''T''" "w \<noteq> CHR '':''" "w \<noteq> CHR ''N''" "w \<noteq> CHR ''=''" "w \<noteq> CHR ''E''"
    "w \<noteq> CHR ''<''" "w \<noteq> CHR ''J''" "w \<noteq> CHR ''O''"
  using assms by (auto simp: isWhiteSpace_def)

lemma white_not_word: "isWhiteSpace w \<Longrightarrow> \<not> isWordChar w"
  by (auto simp: isWhiteSpace_def isWordChar_def)

lemma canonicalize_more:
  "canonicalize (CHR ''t'') = CHR ''T''" "canonicalize (CHR '':'') = CHR '':''"
  "canonicalize (CHR ''n'') = CHR ''N''" "canonicalize (CHR ''='') = CHR ''=''"
  "canonicalize (CHR ''<'') = CHR ''<''"
  by (simp_all add: canonicalize_def)

lemma lit_search_trim:
  assumes "pat = c # rest"
      "\<And>w. isWhiteSpace w \<Longrightarrow> w \<noteq> canonicalize (last pat)"
      "\<And>w. isWhiteSpace w \<Longrightarrow> w \<noteq> canonicalize c"
      "white_stable (f rx_any)"
  shows "rx_search (\<lambda>k. rx_lit pat (f k)) s = rx_search (\<lambda>k. rx_lit pat (f k)) (trim s)"
proof (rule rx_search_trim)
  show "white_stable (rx_lit pat (f rx_any))"
    using assms(4) _ assms(2) by (rule white_stable_lit) (simp add: assms(1))
  show "\<not> rx_lit pat (f rx_any) (w # u)" if "isWhiteSpace w" for w u
    using rx_lit_first[of c rest "f rx_any" w u] assms(3)[OF that] white_canonicalize[OF that]
    by (auto simp: assms(1))
qed

lemma dangerous_trim:
  "list_ex (\<lambda>pattern. pattern s) dangerousPatterns
     = list_ex (\<lambda>pattern. pattern (trim s)) dangerousPatterns"
proof -
  have 1: "rx_search (rx_lit ''<script'') s = rx_search (rx_lit ''<script'') (trim s)"
    using lit_search_trim[of "''<script''" "CHR ''<''" "''script''" "\<lambda>k. k" s]
    by (simp add: canonicalize_more white_not_upper white_stable_any)
  have 2: "rx_search (rx_lit ''javascript:'') s = rx_search (rx_lit ''javascript:'') (trim s)"
    using lit_search_trim[of "''javascript:''" "CHR ''j''" "''avascript:''" "\<lambda>k. k" s]
    by (simp add: canonicalize_more canonicalize_simps white_not_upper white_stable_any)
  have st: "white_stable (rx_plus isWordChar (rx_star isWhiteSpace (rx_lit ''='' rx_any)))"
  proof (rule white_stable_plus[OF white_stable_star[OF white_stable_lit[OF white_stable_any]]])
    show "''='' \<noteq> []" by simp
    show "w \<noteq> canonicalize (last ''='')" if "isWhiteSpace w" for w
      using that by (simp add: canonicalize_more white_not_upper)
    show "\<not> isWordChar w" if "isWhiteSpace w" for w using that by (rule white_not_word)
  qed
  have 3: "rx_search (\<lambda>k. rx_lit ''on'' (rx_plus isWordChar (rx_star isWhiteSpace (rx_lit ''='' k)))) s
         = rx_search (\<lambda>k. rx_lit ''on'' (rx_plus isWordChar (rx_star isWhiteSpace (rx_lit ''='' k)))) (trim s)"
    using lit_search_trim[of "''on''" "CHR ''o''" "''n''"
        "\<lambda>k. rx_plus isWordChar (rx_star isWhiteSpace (rx_lit ''='' k))" s] st
    by (simp add: canonicalize_more canonicalize_simps white_not_upper)
  have 4: "rx_search (rx_lit ''<iframe'') s = rx_search (rx_lit ''<iframe'') (trim s)"
    using lit_search_trim[of "''<iframe''" "CHR ''<''" "''iframe''" "\<lambda>k. k" s]
    by (simp add: canonicalize_more canonicalize_simps white_not_upper white_stable_any)
  have 5: "rx_search (rx_lit ''<object'') s = rx_search (rx_lit ''<object'') (trim s)"
    using lit_search_trim[of "''<object''" "CHR ''<''" "''object''" "\<lambda>k. k" s]
    by (simp add: canonicalize_more canonicalize_simps white_not_upper white_stable_any)
  have d: "canonicalize (CHR ''d'') = CHR ''D''" by (simp add: canonicalize_def)
  have nd: "w \<noteq> CHR ''D''" if "isWhiteSpace w" for w using that by (auto simp: isWhiteSpace_def)
  have 6: "rx_search (rx_lit ''<embed'') s = rx_search (rx_lit ''<embed'') (trim s)"
    using lit_search_trim[of "''<embed''" "CHR ''<''" "''embed''" "\<lambda>k. k" s]
    by (simp add: canonicalize_more d nd white_not_upper white_stable_any)
  show ?thesis unfolding dangerousPatterns_def list_ex_Cons_iff list_ex_Nil_iff
    by (simp only: 1 2 3 4 5 6)
qed

lemma special_count_trim: "filter isSpecialChar s = filter isSpecialChar (trim s)"
proof -
  obtain w1 w2 where d: "s = w1 @ trim s @ w2"
      and w: "\<forall>c \<in> set w1. isWhiteSpace c" "\<forall>c \<in> set w2. isWhiteSpace c"
    using trim_decomposition by blast
  have "filter isSpecialChar w1 = []" "filter isSpecialChar w2 = []"
    using w white_not_special by (auto simp: filter_empty_conv)
  then have "filter isSpecialChar (w1 @ trim s @ w2) = filter isSpecialChar (trim s)" by simp
  then show ?thesis using d by simp
qed

lemma validateInput_trim: "validateInput s = validateInput (trim s)"
  unfolding validateInput_def dangerous_trim[of s] special_count_trim[of s] ..

lemma validated_keys_convert:
  assumes inv: "\<forall>k v. Map_get (entries (cache p)) k = Some v \<longrightarrow> \<not> hasError (validateInput k)"
      and conv: "convertTailwindToCSS b p d x = (r, p', d')"
  shows "\<forall>k v. Map_get (entries (cache p')) k = Some v \<longrightarrow> \<not> hasError (validateInput k)"
  using conv
proof (cases rule: convert_cases)
  case hit
  then show ?thesis using inv by (simp add: LRUCache_get_lookup)
next
  case (success t)
  have "\<not> hasError (validateInput (trim x))" using success(4) validateInput_trim by simp
  then show ?thesis using inv success(7) LRUCache_set_lookup_cases
    by (metis CSSProcessor.select_convs(2) CSSProcessor.surjective CSSProcessor.update_convs(2))
qed (use inv in simp_all)

lemma reachable_validated_keys:
  "reachable A p \<Longrightarrow>
   \<forall>k v. Map_get (entries (cache p)) k = Some v \<longrightarrow> \<not> hasError (validateInput k)"
proof (induction rule: reachable.induct)
  case (reachable_new cfg)
  then show ?case by (simp add: CSSProcessor_new_def LRUCache_new_def Map_get_def)
next
  case (reachable_convert p b d classes r p' d')
  then show ?case using validated_keys_convert by blast
next
  case (reachable_clear p)
  then show ?case by (simp add: clearCache_def LRUCache_clear_def Map_get_def)
qed

lemma reachable_rejected_miss:
  assumes "reachable A p" "hasError (validateInput x)"
  shows "Map_get (entries (cache p)) (trim x) = None"
proof (cases "Map_get (entries (cache p)) (trim x)")
  case None
  then show ?thesis .
next
  case (Some v)
  then have "\<not> hasError (validateInput (trim x))"
    using reachable_validated_keys[OF assms(1)] by blast
  then show ?thesis using assms(2) validateInput_trim by simp
qed

subsection \<open>Guards and the cache\<close>

text \<open>
  C3. The cache is private, so its states are those that conversions and cache resets
  produce from a new processor. On every such processor, for every input and browser:
  an input that is empty after trimming gets the empty result; a non-empty input over the
  length limit gets an error, the input-too-long message naming the limit when the limit
  is a safe integer; an input within the limit that \<open>validateInput\<close> rejects (unsafe
  content, too many special characters) gets that guard's error. In each of these cases
  the processor, and so the cache, is unchanged: the failure is not stored. The cache
  answers only inputs that passed every check: when it holds a result under the trimmed
  text of a non-empty input within the limit, that input passes \<open>validateInput\<close> and the
  cached result is returned. No cached result carries an error, and every cached key
  passes \<open>validateInput\<close>: no guard failure is served from the cache.
\<close>

theorem guards_and_cache:
  assumes reach: "reachable A p"
  shows "(trim x = [] \<longrightarrow> convertTailwindToCSS b p d x = (emptyResult, p, d))
   \<and> (trim x \<noteq> [] \<and> exceedsMaxLength (config p) x \<longrightarrow>
        (\<exists>msg. convertTailwindToCSS b p d x
                 = (\<lparr>css = [], error = Some msg, warnings = None\<rparr>, p, d)
             \<and> msg \<noteq> []
             \<and> (isSafeInteger (maxInputLength (config p)) \<longrightarrow>
                  msg = ''Input too long. Maximum '' @ show_int (maxInputLength (config p))
                        @ '' characters allowed.'')))
   \<and> (trim x \<noteq> [] \<and> \<not> exceedsMaxLength (config p) x \<and> hasError (validateInput x) \<longrightarrow>
        convertTailwindToCSS b p d x = (validateInput x, p, d))
   \<and> (trim x \<noteq> [] \<and> \<not> exceedsMaxLength (config p) x
        \<and> Map_get (entries (cache p)) (trim x) = Some r \<longrightarrow>
        \<not> hasError (validateInput x) \<and> fst (convertTailwindToCSS b p d x) = r)
   \<and> (Map_get (entries (cache p)) k = Some r \<longrightarrow>
        error r = None \<and> \<not> hasError (validateInput k))"
proof -
  have rej: "convertTailwindToCSS b p d x = (validateInput x, p, d)"
    if "trim x \<noteq> []" "\<not> exceedsMaxLength (config p) x" "hasError (validateInput x)"
  proof -
    have "Map_get (entries (cache p)) (trim x) = None"
      using reach that(3) by (rule reachable_rejected_miss)
    then show ?thesis using that convert_hasError[of x p b d]
      by (simp add: exceedsMaxLength_def)
  qed
  have served: "error r = None \<and> \<not> hasError (validateInput k)"
    if "Map_get (entries (cache p)) k = Some r" for k
  proof -
    have "no_cached_errors p" using reach by (rule reachable_no_cached_errors)
    moreover have "(k, r) \<in> set (entries (cache p))" using that by (rule Map_get_in_entries)
    ultimately have "error r = None" by (auto simp: no_cached_errors_def)
    then show ?thesis using reachable_validated_keys[OF reach] that by blast
  qed
  have hit: "\<not> hasError (validateInput x) \<and> fst (convertTailwindToCSS b p d x) = r"
    if "trim x \<noteq> []" "\<not> exceedsMaxLength (config p) x"
       "Map_get (entries (cache p)) (trim x) = Some r"
  proof -
    have "\<not> hasError (validateInput (trim x))" using served[OF that(3)] by simp
    then have "\<not> hasError (validateInput x)" using validateInput_trim[of x] by simp
    then show ?thesis using that convert_hit[of x p r b d] by (simp add: exceedsMaxLength_def)
  qed
  have long: "\<exists>msg. convertTailwindToCSS b p d x
                 = (\<lparr>css = [], error = Some msg, warnings = None\<rparr>, p, d)
             \<and> msg \<noteq> []
             \<and> (isSafeInteger (maxInputLength (config p)) \<longrightarrow>
                  msg = ''Input too long. Maximum '' @ show_int (maxInputLength (config p))
                        @ '' characters allowed.'')"
    if "trim x \<noteq> []" "exceedsMaxLength (config p) x"
    using that convert_too_long[of x p b d] by (simp add: exceedsMaxLength_def inputTooLong_def)
  have c1: "trim x = [] \<longrightarrow> convertTailwindToCSS b p d x = (emptyResult, p, d)"
    by (intro impI) (rule convert_empty)
  have c2: "trim x \<noteq> [] \<and> exceedsMaxLength (config p) x \<longrightarrow>
        (\<exists>msg. convertTailwindToCSS b p d x
                 = (\<lparr>css = [], error = Some msg, warnings = None\<rparr>, p, d)
             \<and> msg \<noteq> []
             \<and> (isSafeInteger (maxInputLength (config p)) \<longrightarrow>
                  msg = ''Input too long. Maximum '' @ show_int (maxInputLength (config p))
                        @ '' characters allowed.''))"
    by (intro impI, elim conjE) (rule long)
  have c3: "trim x \<noteq> [] \<and> \<not> exceedsMaxLength (config p) x \<and> hasError (validateInput x) \<longrightarrow>
        convertTailwindToCSS b p d x = (validateInput x, p, d)"
    by (intro impI, elim conjE) (rule rej)
  have c4: "trim x \<noteq> [] \<and> \<not> exceedsMaxLength (config p) x
        \<and> Map_get (entries (cache p)) (trim x) = Some r \<longrightarrow>
        \<not> hasError (validateInput x) \<and> fst (convertTailwindToCSS b p d x) = r"
    by (intro impI, elim conjE) (rule hit)
  have c5: "Map_get (entries (cache p)) k = Some r \<longrightarrow>
        error r = None \<and> \<not> hasError (validateInput k)"
    by (intro impI) (rule served)
  from c1 c2 c3 c4 c5 show ?thesis by (intro conjI)
qed

section \<open>Evaluations\<close>

text \<open>
  C1. The claim: a conversion that succeeds with no diagnostic returns a warnings field
  that is present and empty. The code at the input of the repository's test
  \<open>should not warn about valid Tailwind classes\<close>: the conversion succeeds, no diagnostic
  is triggered, and the warnings field of the result is absent.
\<close>

theorem warnings_absent_without_diagnostics:
  "generateWarnings (sanitizeInput ''bg-blue-500 hover:bg-blue-600 md:text-lg'')
     (''.element {'' @ [CHR 0x0A] @ ''  background-color: rgb(59, 130, 246);''
        @ [CHR 0x0A] @ ''}'') = []
   \<and> convertTailwindToCSS (mockBrowser [(''background-color'', ''rgb(59, 130, 246)'')])
     (CSSProcessor_new defaultConfig) emptyDocument ''bg-blue-500 hover:bg-blue-600 md:text-lg''
   = (\<lparr>css = ''.element {'' @ [CHR 0x0A] @ ''  background-color: rgb(59, 130, 246);''
               @ [CHR 0x0A] @ ''}'',
       error = None, warnings = None\<rparr>,
      \<lparr>config = defaultConfig,
       cache = \<lparr>entries =
                  [(''bg-blue-500 hover:bg-blue-600 md:text-lg'',
                    \<lparr>css = ''.element {'' @ [CHR 0x0A] @ ''  background-color: rgb(59, 130, 246);''
                             @ [CHR 0x0A] @ ''}'',
                     error = None, warnings = None\<rparr>)],
                maxSize = 50\<rparr>\<rparr>,
      \<lparr>body = [], nextId = 1,
       calls = [CreateElement, AppendChild 0, GetComputedStyle 0, RemoveChild 0]\<rparr>)"
  by code_simp

text \<open>
  C2. The claim: the hidden element is removed on every exit path. The code when
  \<open>getComputedStyle\<close> throws: the conversion returns the error result and the element it
  attached is still a child of the body; no \<open>removeChild\<close> was called.
\<close>

theorem element_left_attached_when_getComputedStyle_throws:
  "convertTailwindToCSS (getComputedStyleThrows (JsError ''Error'' ''getComputedStyle failed''))
     (CSSProcessor_new defaultConfig) emptyDocument ''bg-blue-500''
   = (\<lparr>css = [],
       error = Some ''Style computation error: Unable to extract CSS styles from the element.'',
       warnings = None\<rparr>,
      CSSProcessor_new defaultConfig,
      \<lparr>body = [\<lparr>elem_id = 0, className = ''bg-blue-500''\<rparr>], nextId = 1,
       calls = [CreateElement, AppendChild 0, GetComputedStyle 0]\<rparr>)"
  by code_simp

theorem convert_twice_counterexample:
  "convertTailwindToCSS (getComputedStyleThrows (JsError ''Error'' ''getComputedStyle failed''))
     (CSSProcessor_new defaultConfig) emptyDocument ''bg-blue-500''
   = (\<lparr>css = [],
       error = Some ''Style computation error: Unable to extract CSS styles from the element.'',
       warnings = None\<rparr>,
      CSSProcessor_new defaultConfig,
      \<lparr>body = [\<lparr>elem_id = 0, className = ''bg-blue-500''\<rparr>], nextId = 1,
       calls = [CreateElement, AppendChild 0, GetComputedStyle 0]\<rparr>)
   \<and> convertTailwindToCSS (getComputedStyleThrows (JsError ''Error'' ''getComputedStyle failed''))
     (CSSProcessor_new defaultConfig)
     \<lparr>body = [\<lparr>elem_id = 0, className = ''bg-blue-500''\<rparr>], nextId = 1,
      calls = [CreateElement, AppendChild 0, GetComputedStyle 0]\<rparr> ''bg-blue-500''
   = (\<lparr>css = [],
       error = Some ''Style computation error: Unable to extract CSS styles from the element.'',
       warnings = None\<rparr>,
      CSSProcessor_new defaultConfig,
      \<lparr>body = [\<lparr>elem_id = 0, className = ''bg-blue-500''\<rparr>,
               \<lparr>elem_id = 1, className = ''bg-blue-500''\<rparr>], nextId = 2,
       calls = [CreateElement, AppendChild 0, GetComputedStyle 0,
                CreateElement, AppendChild 1, GetComputedStyle 1]\<rparr>)"
  by code_simp

theorem unrecognized_failure_counterexample:
  "\<not> recognized (JsError ''Error'' ''boom'')
   \<and> convertTailwindToCSS (createElementThrows (JsError ''Error'' ''boom''))
       (CSSProcessor_new defaultConfig) emptyDocument ''bg-blue-500''
     = (\<lparr>css = [], error = Some ''boom'', warnings = None\<rparr>,
        CSSProcessor_new defaultConfig,
        \<lparr>body = [], nextId = 0, calls = [CreateElement]\<rparr>)"
  by code_simp

subsection \<open>Evaluations shared by the witnesses\<close>

lemma eval_p4:
  "convertTailwindToCSS (mockBrowser [(''padding'', ''16px'')])
     (CSSProcessor_new defaultConfig) emptyDocument ''p-4''
   = (\<lparr>css = ''.element {'' @ [CHR 0x0A] @ ''  padding: 16px;'' @ [CHR 0x0A] @ ''}'',
       error = None, warnings = None\<rparr>,
      \<lparr>config = defaultConfig,
       cache = \<lparr>entries =
                  [(''p-4'',
                    \<lparr>css = ''.element {'' @ [CHR 0x0A] @ ''  padding: 16px;'' @ [CHR 0x0A] @ ''}'',
                     error = None, warnings = None\<rparr>)],
                maxSize = 50\<rparr>\<rparr>,
      \<lparr>body = [], nextId = 1,
       calls = [CreateElement, AppendChild 0, GetComputedStyle 0, RemoveChild 0]\<rparr>)"
  by code_simp

theorem convert_twice_witness:
  "convertTailwindToCSS (mockBrowser [(''padding'', ''16px'')])
     (CSSProcessor_new defaultConfig) emptyDocument ''p-4''
   = (\<lparr>css = ''.element {'' @ [CHR 0x0A] @ ''  padding: 16px;'' @ [CHR 0x0A] @ ''}'',
       error = None, warnings = None\<rparr>,
      \<lparr>config = defaultConfig,
       cache = \<lparr>entries =
                  [(''p-4'',
                    \<lparr>css = ''.element {'' @ [CHR 0x0A] @ ''  padding: 16px;'' @ [CHR 0x0A] @ ''}'',
                     error = None, warnings = None\<rparr>)],
                maxSize = 50\<rparr>\<rparr>,
      \<lparr>body = [], nextId = 1,
       calls = [CreateElement, AppendChild 0, GetComputedStyle 0, RemoveChild 0]\<rparr>)
   \<and> (\<exists>p2. convertTailwindToCSS (getComputedStyleThrows (JsOther ''down''))
       \<lparr>config = defaultConfig,
        cache = \<lparr>entries =
                  [(''p-4'',
                    \<lparr>css = ''.element {'' @ [CHR 0x0A] @ ''  padding: 16px;'' @ [CHR 0x0A] @ ''}'',
                     error = None, warnings = None\<rparr>)],
                maxSize = 50\<rparr>\<rparr>
       \<lparr>body = [], nextId = 1,
        calls = [CreateElement, AppendChild 0, GetComputedStyle 0, RemoveChild 0]\<rparr> ''p-4''
     = (\<lparr>css = ''.element {'' @ [CHR 0x0A] @ ''  padding: 16px;'' @ [CHR 0x0A] @ ''}'',
         error = None, warnings = None\<rparr>, p2,
        \<lparr>body = [], nextId = 1,
         calls = [CreateElement, AppendChild 0, GetComputedStyle 0, RemoveChild 0]\<rparr>))"
  using eval_p4 convert_twice[OF eval_p4, where ?b2.0 = "getComputedStyleThrows (JsOther ''down'')"]
  by simp

lemma eval_after_p4_throws:
  "convertTailwindToCSS (getComputedStyleThrows (JsError ''Error'' ''getComputedStyle failed''))
     \<lparr>config = defaultConfig,
      cache = \<lparr>entries =
                 [(''p-4'',
                   \<lparr>css = ''.element {'' @ [CHR 0x0A] @ ''  padding: 16px;'' @ [CHR 0x0A] @ ''}'',
                    error = None, warnings = None\<rparr>)],
               maxSize = 50\<rparr>\<rparr>
     emptyDocument ''m-2''
   = (\<lparr>css = [],
       error = Some ''Style computation error: Unable to extract CSS styles from the element.'',
       warnings = None\<rparr>,
      fst (snd (convertTailwindToCSS
                  (getComputedStyleThrows (JsError ''Error'' ''getComputedStyle failed''))
                  \<lparr>config = defaultConfig,
                   cache = \<lparr>entries =
                     [(''p-4'',
                       \<lparr>css = ''.element {'' @ [CHR 0x0A] @ ''  padding: 16px;'' @ [CHR 0x0A] @ ''}'',
                        error = None, warnings = None\<rparr>)],
                   maxSize = 50\<rparr>\<rparr>
                  emptyDocument ''m-2'')),
      \<lparr>body = [\<lparr>elem_id = 0, className = ''m-2''\<rparr>], nextId = 1,
       calls = [CreateElement, AppendChild 0, GetComputedStyle 0]\<rparr>)"
  by code_simp

theorem failed_conversion_not_cached_witness:
  "reachable (\<lambda>b. True)
     \<lparr>config = defaultConfig,
      cache = \<lparr>entries =
                 [(''p-4'',
                   \<lparr>css = ''.element {'' @ [CHR 0x0A] @ ''  padding: 16px;'' @ [CHR 0x0A] @ ''}'',
                    error = None, warnings = None\<rparr>)],
               maxSize = 50\<rparr>\<rparr>
   \<and> fst (snd (convertTailwindToCSS
                  (getComputedStyleThrows (JsError ''Error'' ''getComputedStyle failed''))
                  \<lparr>config = defaultConfig,
                   cache = \<lparr>entries =
                     [(''p-4'',
                       \<lparr>css = ''.element {'' @ [CHR 0x0A] @ ''  padding: 16px;'' @ [CHR 0x0A] @ ''}'',
                        error = None, warnings = None\<rparr>)],
                   maxSize = 50\<rparr>\<rparr>
                  emptyDocument ''m-2''))
     = \<lparr>config = defaultConfig,
        cache = \<lparr>entries =
                 [(''p-4'',
                   \<lparr>css = ''.element {'' @ [CHR 0x0A] @ ''  padding: 16px;'' @ [CHR 0x0A] @ ''}'',
                    error = None, warnings = None\<rparr>)],
               maxSize = 50\<rparr>\<rparr>"
proof -
  have r: "reachable (\<lambda>b. True)
     \<lparr>config = defaultConfig,
      cache = \<lparr>entries =
                 [(''p-4'',
                   \<lparr>css = ''.element {'' @ [CHR 0x0A] @ ''  padding: 16px;'' @ [CHR 0x0A] @ ''}'',
                    error = None, warnings = None\<rparr>)],
               maxSize = 50\<rparr>\<rparr>"
    using reachable_convert[OF reachable_new _ eval_p4, of "\<lambda>b. True"] by simp
  show ?thesis
    using r failed_conversion_not_cached[OF r eval_after_p4_throws] by simp
qed

lemma reachable_after_p4:
  "reachable (\<lambda>b. True)
     \<lparr>config = defaultConfig,
      cache = \<lparr>entries =
                 [(''p-4'',
                   \<lparr>css = ''.element {'' @ [CHR 0x0A] @ ''  padding: 16px;'' @ [CHR 0x0A] @ ''}'',
                    error = None, warnings = None\<rparr>)],
               maxSize = 50\<rparr>\<rparr>"
  using reachable_convert[OF reachable_new _ eval_p4, of "\<lambda>b. True"] by simp

lemma hyp_script:
  "trim ''<script>alert(1)</script>'' \<noteq> []
   \<and> \<not> exceedsMaxLength (config
     \<lparr>config = defaultConfig,
      cache = \<lparr>entries =
                 [(''p-4'',
                   \<lparr>css = ''.element {'' @ [CHR 0x0A] @ ''  padding: 16px;'' @ [CHR 0x0A] @ ''}'',
                    error = None, warnings = None\<rparr>)],
               maxSize = 50\<rparr>\<rparr>) ''<script>alert(1)</script>''
   \<and> hasError (validateInput ''<script>alert(1)</script>'')
   \<and> validateInput ''<script>alert(1)</script>''
       = \<lparr>css = [],
          error = Some ''Input contains potentially unsafe content. Please use only Tailwind CSS classes.'',
          warnings = None\<rparr>"
  by code_simp

theorem guards_and_cache_witness:
  "reachable (\<lambda>b. True)
     \<lparr>config = defaultConfig,
      cache = \<lparr>entries =
                 [(''p-4'',
                   \<lparr>css = ''.element {'' @ [CHR 0x0A] @ ''  padding: 16px;'' @ [CHR 0x0A] @ ''}'',
                    error = None, warnings = None\<rparr>)],
               maxSize = 50\<rparr>\<rparr>
   \<and> trim ''<script>alert(1)</script>'' \<noteq> []
   \<and> \<not> exceedsMaxLength (config
     \<lparr>config = defaultConfig,
      cache = \<lparr>entries =
                 [(''p-4'',
                   \<lparr>css = ''.element {'' @ [CHR 0x0A] @ ''  padding: 16px;'' @ [CHR 0x0A] @ ''}'',
                    error = None, warnings = None\<rparr>)],
               maxSize = 50\<rparr>\<rparr>) ''<script>alert(1)</script>''
   \<and> hasError (validateInput ''<script>alert(1)</script>'')
   \<and> convertTailwindToCSS (mockBrowser [])
     \<lparr>config = defaultConfig,
      cache = \<lparr>entries =
                 [(''p-4'',
                   \<lparr>css = ''.element {'' @ [CHR 0x0A] @ ''  padding: 16px;'' @ [CHR 0x0A] @ ''}'',
                    error = None, warnings = None\<rparr>)],
               maxSize = 50\<rparr>\<rparr>
     emptyDocument ''<script>alert(1)</script>''
       = (\<lparr>css = [],
          error = Some ''Input contains potentially unsafe content. Please use only Tailwind CSS classes.'',
          warnings = None\<rparr>,
     \<lparr>config = defaultConfig,
      cache = \<lparr>entries =
                 [(''p-4'',
                   \<lparr>css = ''.element {'' @ [CHR 0x0A] @ ''  padding: 16px;'' @ [CHR 0x0A] @ ''}'',
                    error = None, warnings = None\<rparr>)],
               maxSize = 50\<rparr>\<rparr>,
     emptyDocument)"
proof -
  have h: "trim ''<script>alert(1)</script>'' \<noteq> []"
      "\<not> exceedsMaxLength (config
     \<lparr>config = defaultConfig,
      cache = \<lparr>entries =
                 [(''p-4'',
                   \<lparr>css = ''.element {'' @ [CHR 0x0A] @ ''  padding: 16px;'' @ [CHR 0x0A] @ ''}'',
                    error = None, warnings = None\<rparr>)],
               maxSize = 50\<rparr>\<rparr>) ''<script>alert(1)</script>''"
      "hasError (validateInput ''<script>alert(1)</script>'')"
    and v: "validateInput ''<script>alert(1)</script>''
       = \<lparr>css = [],
          error = Some ''Input contains potentially unsafe content. Please use only Tailwind CSS classes.'',
          warnings = None\<rparr>"
    using hyp_script by blast+
  have "convertTailwindToCSS (mockBrowser [])
     \<lparr>config = defaultConfig,
      cache = \<lparr>entries =
                 [(''p-4'',
                   \<lparr>css = ''.element {'' @ [CHR 0x0A] @ ''  padding: 16px;'' @ [CHR 0x0A] @ ''}'',
                    error = None, warnings = None\<rparr>)],
               maxSize = 50\<rparr>\<rparr>
     emptyDocument ''<script>alert(1)</script>''
       = (validateInput ''<script>alert(1)</script>'',
     \<lparr>config = defaultConfig,
      cache = \<lparr>entries =
                 [(''p-4'',
                   \<lparr>css = ''.element {'' @ [CHR 0x0A] @ ''  padding: 16px;'' @ [CHR 0x0A] @ ''}'',
                    error = None, warnings = None\<rparr>)],
               maxSize = 50\<rparr>\<rparr>,
     emptyDocument)"
    using h guards_and_cache[OF reachable_after_p4, where x = "''<script>alert(1)</script>''"
      and b = "mockBrowser []" and d = emptyDocument]
    by blast
  then show ?thesis using h reachable_after_p4 unfolding v by blast
qed

lemma hyp_string_error:
  "trim ''bg-blue-500'' \<noteq> []
   \<and> \<not> exceedsMaxLength (config (CSSProcessor_new defaultConfig)) ''bg-blue-500''
   \<and> Map_get (entries (cache (CSSProcessor_new defaultConfig))) (trim ''bg-blue-500'') = None
   \<and> \<not> hasError (validateInput ''bg-blue-500'')
   \<and> extractAndFormat (createElementThrows (JsOther ''String error'')) emptyDocument
         (sanitizeInput ''bg-blue-500'')
       = (Inl (JsOther ''String error''), \<lparr>body = [], nextId = 0, calls = [CreateElement]\<rparr>)
   \<and> \<not> recognized (JsOther ''String error'')"
  by code_simp

theorem unrecognized_failure_reported_witness:
  "trim ''bg-blue-500'' \<noteq> []
   \<and> \<not> exceedsMaxLength (config (CSSProcessor_new defaultConfig)) ''bg-blue-500''
   \<and> Map_get (entries (cache (CSSProcessor_new defaultConfig))) (trim ''bg-blue-500'') = None
   \<and> \<not> hasError (validateInput ''bg-blue-500'')
   \<and> extractAndFormat (createElementThrows (JsOther ''String error'')) emptyDocument
         (sanitizeInput ''bg-blue-500'')
       = (Inl (JsOther ''String error''), \<lparr>body = [], nextId = 0, calls = [CreateElement]\<rparr>)
   \<and> \<not> recognized (JsOther ''String error'')
   \<and> convertTailwindToCSS (createElementThrows (JsOther ''String error''))
         (CSSProcessor_new defaultConfig) emptyDocument ''bg-blue-500''
       = (\<lparr>css = [], error = Some ''An unexpected error occurred during CSS conversion.'',
           warnings = None\<rparr>,
          CSSProcessor_new defaultConfig, \<lparr>body = [], nextId = 0, calls = [CreateElement]\<rparr>)"
proof -
  note h = hyp_string_error
  have "convertTailwindToCSS (createElementThrows (JsOther ''String error''))
         (CSSProcessor_new defaultConfig) emptyDocument ''bg-blue-500''
       = (\<lparr>css = [], error = Some ''An unexpected error occurred during CSS conversion.'',
           warnings = None\<rparr>,
          CSSProcessor_new defaultConfig, \<lparr>body = [], nextId = 0, calls = [CreateElement]\<rparr>)"
    using unrecognized_failure_reported[of "''bg-blue-500''" "CSSProcessor_new defaultConfig"
        "createElementThrows (JsOther ''String error'')" emptyDocument "JsOther ''String error''"
        "\<lparr>body = [], nextId = 0, calls = [CreateElement]\<rparr>"] h
    by simp
  then show ?thesis using h by blast
qed

lemma trim_append_spaces:
  assumes "s \<noteq> []" "\<not> isWhiteSpace (last s)"
  shows "trim (s @ replicate n (CHR '' '')) = trim s"
proof -
  have sp: "\<forall>c \<in> set (replicate n (CHR '' '')). isWhiteSpace c"
    by (simp add: isWhiteSpace_def)
  have "last s \<in> set s" using assms(1) by simp
  then have a: "dropWhile isWhiteSpace (s @ replicate n (CHR '' ''))
                 = dropWhile isWhiteSpace s @ replicate n (CHR '' '')"
    using assms(2) by (rule dropWhile_append1)
  have "rev (dropWhile isWhiteSpace s @ replicate n (CHR '' ''))
          = replicate n (CHR '' '') @ rev (dropWhile isWhiteSpace s)"
    by (simp only: rev_append rev_replicate)
  moreover have "dropWhile isWhiteSpace (replicate n (CHR '' '') @ rev (dropWhile isWhiteSpace s))
          = dropWhile isWhiteSpace (rev (dropWhile isWhiteSpace s))"
    using sp by (intro dropWhile_append2) blast
  ultimately show ?thesis unfolding trim_def a by (simp only:)
qed

lemma eval_a:
  "convertTailwindToCSS (mockBrowser [(''padding'', ''16px'')])
     (CSSProcessor_new defaultConfig) emptyDocument ''a''
   = (\<lparr>css = ''.element {'' @ [CHR 0x0A] @ ''  padding: 16px;'' @ [CHR 0x0A] @ ''}'',
       error = None, warnings = None\<rparr>,
      \<lparr>config = defaultConfig,
       cache = \<lparr>entries =
                  [(''a'',
                    \<lparr>css = ''.element {'' @ [CHR 0x0A] @ ''  padding: 16px;'' @ [CHR 0x0A] @ ''}'',
                     error = None, warnings = None\<rparr>)],
                maxSize = 50\<rparr>\<rparr>,
      \<lparr>body = [], nextId = 1,
       calls = [CreateElement, AppendChild 0, GetComputedStyle 0, RemoveChild 0]\<rparr>)"
  by code_simp

theorem cache_key_counterexample:
  "trim (''a'' @ replicate 10000 (CHR '' '')) = trim ''a''
   \<and> convertTailwindToCSS (mockBrowser [(''padding'', ''16px'')])
       (CSSProcessor_new defaultConfig) emptyDocument ''a''
     = (\<lparr>css = ''.element {'' @ [CHR 0x0A] @ ''  padding: 16px;'' @ [CHR 0x0A] @ ''}'',
         error = None, warnings = None\<rparr>,
        \<lparr>config = defaultConfig,
         cache = \<lparr>entries =
                    [(''a'',
                      \<lparr>css = ''.element {'' @ [CHR 0x0A] @ ''  padding: 16px;'' @ [CHR 0x0A] @ ''}'',
                       error = None, warnings = None\<rparr>)],
                  maxSize = 50\<rparr>\<rparr>,
        \<lparr>body = [], nextId = 1,
         calls = [CreateElement, AppendChild 0, GetComputedStyle 0, RemoveChild 0]\<rparr>)
   \<and> convertTailwindToCSS (mockBrowser [(''padding'', ''16px'')])
        \<lparr>config = defaultConfig,
         cache = \<lparr>entries =
                    [(''a'',
                      \<lparr>css = ''.element {'' @ [CHR 0x0A] @ ''  padding: 16px;'' @ [CHR 0x0A] @ ''}'',
                       error = None, warnings = None\<rparr>)],
                  maxSize = 50\<rparr>\<rparr>
        \<lparr>body = [], nextId = 1,
         calls = [CreateElement, AppendChild 0, GetComputedStyle 0, RemoveChild 0]\<rparr>
        (''a'' @ replicate 10000 (CHR '' ''))
     = (\<lparr>css = [], error = Some ''Input too long. Maximum 10000 characters allowed.'',
         warnings = None\<rparr>,
        \<lparr>config = defaultConfig,
         cache = \<lparr>entries =
                    [(''a'',
                      \<lparr>css = ''.element {'' @ [CHR 0x0A] @ ''  padding: 16px;'' @ [CHR 0x0A] @ ''}'',
                       error = None, warnings = None\<rparr>)],
                  maxSize = 50\<rparr>\<rparr>,
        \<lparr>body = [], nextId = 1,
         calls = [CreateElement, AppendChild 0, GetComputedStyle 0, RemoveChild 0]\<rparr>)"
proof -
  let ?y = "''a'' @ replicate 10000 (CHR '' '')"
  let ?p = "\<lparr>config = defaultConfig,
         cache = \<lparr>entries =
                    [(''a'',
                      \<lparr>css = ''.element {'' @ [CHR 0x0A] @ ''  padding: 16px;'' @ [CHR 0x0A] @ ''}'',
                       error = None, warnings = None\<rparr>)],
                  maxSize = 50\<rparr>\<rparr>"
  have w: "''a'' \<noteq> []" "\<not> isWhiteSpace (last ''a'')" by (simp_all add: isWhiteSpace_def)
  have t: "trim ?y = trim ''a''" using w by (rule trim_append_spaces)
  have ta: "trim ''a'' \<noteq> []" by code_simp
  have ne: "trim ?y \<noteq> []" unfolding t by (rule ta)
  have "length ?y = 10001" by (simp only: length_append length_replicate) simp
  then have len: "int (length ?y) > maxInputLength (config ?p)"
    by (simp add: defaultConfig_def)
  have cfg: "maxInputLength (config ?p) = maxInputLength defaultConfig" by simp
  have "convertTailwindToCSS (mockBrowser [(''padding'', ''16px'')]) ?p
        \<lparr>body = [], nextId = 1,
         calls = [CreateElement, AppendChild 0, GetComputedStyle 0, RemoveChild 0]\<rparr> ?y
        = (inputTooLong (maxInputLength (config ?p)), ?p,
           \<lparr>body = [], nextId = 1,
            calls = [CreateElement, AppendChild 0, GetComputedStyle 0, RemoveChild 0]\<rparr>)"
    using ne len by (rule convert_too_long)
  then show ?thesis using t eval_a unfolding cfg inputTooLong_default by blast
qed

lemma eval_a_padded:
  "convertTailwindToCSS (mockBrowser [(''padding'', ''16px'')])
     (CSSProcessor_new defaultConfig) emptyDocument '' a ''
   = (\<lparr>css = ''.element {'' @ [CHR 0x0A] @ ''  padding: 16px;'' @ [CHR 0x0A] @ ''}'',
       error = None, warnings = None\<rparr>,
      \<lparr>config = defaultConfig,
       cache = \<lparr>entries =
                  [(''a'',
                    \<lparr>css = ''.element {'' @ [CHR 0x0A] @ ''  padding: 16px;'' @ [CHR 0x0A] @ ''}'',
                     error = None, warnings = None\<rparr>)],
                maxSize = 50\<rparr>\<rparr>,
      \<lparr>body = [], nextId = 1,
       calls = [CreateElement, AppendChild 0, GetComputedStyle 0, RemoveChild 0]\<rparr>)"
  by code_simp

lemma eval_a_b:
  "convertTailwindToCSS (mockBrowser [(''padding'', ''16px'')])
     (CSSProcessor_new defaultConfig) emptyDocument ''a  b''
   = (\<lparr>css = ''.element {'' @ [CHR 0x0A] @ ''  padding: 16px;'' @ [CHR 0x0A] @ ''}'',
       error = None, warnings = None\<rparr>,
      \<lparr>config = defaultConfig,
       cache = \<lparr>entries =
                  [(''a  b'',
                    \<lparr>css = ''.element {'' @ [CHR 0x0A] @ ''  padding: 16px;'' @ [CHR 0x0A] @ ''}'',
                     error = None, warnings = None\<rparr>)],
                maxSize = 50\<rparr>\<rparr>,
      \<lparr>body = [], nextId = 1,
       calls = [CreateElement, AppendChild 0, GetComputedStyle 0, RemoveChild 0]\<rparr>)"
  by code_simp

lemma hyp_keys:
  "trim '' a '' \<noteq> [] \<and> trim ''a'' \<noteq> [] \<and> trim ''a  b'' \<noteq> [] \<and> trim ''a b'' \<noteq> []
   \<and> \<not> exceedsMaxLength (config (CSSProcessor_new defaultConfig)) '' a ''
   \<and> \<not> exceedsMaxLength (config (CSSProcessor_new defaultConfig)) ''a''
   \<and> \<not> exceedsMaxLength (config (CSSProcessor_new defaultConfig)) ''a  b''
   \<and> \<not> exceedsMaxLength (config (CSSProcessor_new defaultConfig)) ''a b''
   \<and> trim ''a'' = trim '' a '' \<and> trim ''a b'' \<noteq> trim ''a  b''
   \<and> Map_get (entries (cache (CSSProcessor_new defaultConfig))) (trim ''a b'') = None"
  by code_simp

theorem cache_key_is_trimmed_input_witness:
  "trim '' a '' \<noteq> [] \<and> trim ''a'' \<noteq> [] \<and> trim ''a  b'' \<noteq> [] \<and> trim ''a b'' \<noteq> []
   \<and> \<not> exceedsMaxLength (config (CSSProcessor_new defaultConfig)) '' a ''
   \<and> \<not> exceedsMaxLength (config (CSSProcessor_new defaultConfig)) ''a''
   \<and> \<not> exceedsMaxLength (config (CSSProcessor_new defaultConfig)) ''a  b''
   \<and> \<not> exceedsMaxLength (config (CSSProcessor_new defaultConfig)) ''a b''
   \<and> trim ''a'' = trim '' a '' \<and> trim ''a b'' \<noteq> trim ''a  b''
   \<and> Map_get (entries (cache (CSSProcessor_new defaultConfig))) (trim ''a b'') = None
   \<and> (\<exists>p2. convertTailwindToCSS (getComputedStyleThrows (JsOther ''down''))
         \<lparr>config = defaultConfig,
          cache = \<lparr>entries =
                  [(''a'',
                    \<lparr>css = ''.element {'' @ [CHR 0x0A] @ ''  padding: 16px;'' @ [CHR 0x0A] @ ''}'',
                     error = None, warnings = None\<rparr>)],
                maxSize = 50\<rparr>\<rparr>
         \<lparr>body = [], nextId = 1,
          calls = [CreateElement, AppendChild 0, GetComputedStyle 0, RemoveChild 0]\<rparr> ''a''
       = (\<lparr>css = ''.element {'' @ [CHR 0x0A] @ ''  padding: 16px;'' @ [CHR 0x0A] @ ''}'',
           error = None, warnings = None\<rparr>, p2,
          \<lparr>body = [], nextId = 1,
           calls = [CreateElement, AppendChild 0, GetComputedStyle 0, RemoveChild 0]\<rparr>))
   \<and> \<not> (\<exists>p2. convertTailwindToCSS (mockBrowser [(''padding'', ''16px'')])
         \<lparr>config = defaultConfig,
          cache = \<lparr>entries =
                  [(''a  b'',
                    \<lparr>css = ''.element {'' @ [CHR 0x0A] @ ''  padding: 16px;'' @ [CHR 0x0A] @ ''}'',
                     error = None, warnings = None\<rparr>)],
                maxSize = 50\<rparr>\<rparr>
         \<lparr>body = [], nextId = 1,
          calls = [CreateElement, AppendChild 0, GetComputedStyle 0, RemoveChild 0]\<rparr> ''a b''
       = (\<lparr>css = ''.element {'' @ [CHR 0x0A] @ ''  padding: 16px;'' @ [CHR 0x0A] @ ''}'',
           error = None, warnings = None\<rparr>, p2,
          \<lparr>body = [], nextId = 1,
           calls = [CreateElement, AppendChild 0, GetComputedStyle 0, RemoveChild 0]\<rparr>))"
proof -
  have h: "trim '' a '' \<noteq> []" "trim ''a'' \<noteq> []" "trim ''a  b'' \<noteq> []" "trim ''a b'' \<noteq> []"
    "\<not> exceedsMaxLength (config (CSSProcessor_new defaultConfig)) '' a ''"
    "\<not> exceedsMaxLength (config (CSSProcessor_new defaultConfig)) ''a''"
    "\<not> exceedsMaxLength (config (CSSProcessor_new defaultConfig)) ''a  b''"
    "\<not> exceedsMaxLength (config (CSSProcessor_new defaultConfig)) ''a b''"
    "trim ''a'' = trim '' a ''" "trim ''a b'' \<noteq> trim ''a  b''"
    "Map_get (entries (cache (CSSProcessor_new defaultConfig))) (trim ''a b'') = None"
    using hyp_keys by blast+
  have e: "error \<lparr>css = ''.element {'' @ [CHR 0x0A] @ ''  padding: 16px;'' @ [CHR 0x0A] @ ''}'',
       error = None, warnings = None\<rparr> = None" by simp
  have one: "(\<exists>p2. convertTailwindToCSS (getComputedStyleThrows (JsOther ''down''))
         \<lparr>config = defaultConfig,
          cache = \<lparr>entries =
                  [(''a'',
                    \<lparr>css = ''.element {'' @ [CHR 0x0A] @ ''  padding: 16px;'' @ [CHR 0x0A] @ ''}'',
                     error = None, warnings = None\<rparr>)],
                maxSize = 50\<rparr>\<rparr>
         \<lparr>body = [], nextId = 1,
          calls = [CreateElement, AppendChild 0, GetComputedStyle 0, RemoveChild 0]\<rparr> ''a''
       = (\<lparr>css = ''.element {'' @ [CHR 0x0A] @ ''  padding: 16px;'' @ [CHR 0x0A] @ ''}'',
           error = None, warnings = None\<rparr>, p2,
          \<lparr>body = [], nextId = 1,
           calls = [CreateElement, AppendChild 0, GetComputedStyle 0, RemoveChild 0]\<rparr>))"
    using cache_key_is_trimmed_input[OF h(1) h(5) h(2) h(6) eval_a_padded e,
        of "getComputedStyleThrows (JsOther ''down'')"] h(9)
    by blast
  have two: "\<not> (\<exists>p2. convertTailwindToCSS (mockBrowser [(''padding'', ''16px'')])
         \<lparr>config = defaultConfig,
          cache = \<lparr>entries =
                  [(''a  b'',
                    \<lparr>css = ''.element {'' @ [CHR 0x0A] @ ''  padding: 16px;'' @ [CHR 0x0A] @ ''}'',
                     error = None, warnings = None\<rparr>)],
                maxSize = 50\<rparr>\<rparr>
         \<lparr>body = [], nextId = 1,
          calls = [CreateElement, AppendChild 0, GetComputedStyle 0, RemoveChild 0]\<rparr> ''a b''
       = (\<lparr>css = ''.element {'' @ [CHR 0x0A] @ ''  padding: 16px;'' @ [CHR 0x0A] @ ''}'',
           error = None, warnings = None\<rparr>, p2,
          \<lparr>body = [], nextId = 1,
           calls = [CreateElement, AppendChild 0, GetComputedStyle 0, RemoveChild 0]\<rparr>))"
    using cache_key_is_trimmed_input[OF h(3) h(7) h(4) h(8) eval_a_b e,
        of "mockBrowser [(''padding'', ''16px'')]"] h(10) h(11)
    by blast
  show ?thesis using h one two by blast
qed

lemma mock_unstyled: "emptyClassUnstyled (mockBrowser [])"
  by (simp add: emptyClassUnstyled_def mockBrowser_def unstyled_def mockStyles_def
      isNonDefaultValue_def)

lemma mock_resolves: "emptyClassResolves (mockBrowser [])"
  by (simp add: emptyClassResolves_def mockBrowser_def mockStyles_def)

lemma hyp_brackets:
  "''[]'' \<noteq> [] \<and> (\<forall>c \<in> set ''[]''. isSpecialChar c) \<and> length ''[]'' \<le> 10
   \<and> \<not> exceedsMaxLength (config (CSSProcessor_new defaultConfig)) ''[]''"
  by (simp add: isSpecialChar_def exceedsMaxLength_def CSSProcessor_new_def defaultConfig_def)

theorem special_characters_only_input_witness:
  "''[]'' \<noteq> [] \<and> length ''[]'' \<le> 10
   \<and> \<not> exceedsMaxLength (config (CSSProcessor_new defaultConfig)) ''[]''
   \<and> trim ''[]'' = ''[]'' \<and> sanitizeInput ''[]'' = []
   \<and> (\<exists>p' d'. convertTailwindToCSS (mockBrowser []) (CSSProcessor_new defaultConfig)
                  emptyDocument ''[]''
                = (\<lparr>css = ''/* No styles generated - try adding some Tailwind classes */'',
                    error = None, warnings = None\<rparr>, p', d')
              \<and> Map_get (entries (cache p')) (trim ''[]'')
                = Some \<lparr>css = ''/* No styles generated - try adding some Tailwind classes */'',
                        error = None, warnings = None\<rparr>)"
proof -
  have r: "reachable emptyClassUnstyled (CSSProcessor_new defaultConfig)"
    by (rule reachable_new)
  have h: "''[]'' \<noteq> []" "\<forall>c \<in> set ''[]''. isSpecialChar c" "length ''[]'' \<le> 10"
    "\<not> exceedsMaxLength (config (CSSProcessor_new defaultConfig)) ''[]''"
    using hyp_brackets by blast+
  have n: "noStylesResult = \<lparr>css = ''/* No styles generated - try adding some Tailwind classes */'',
                    error = None, warnings = None\<rparr>"
    by (simp add: noStylesResult_def noStylesComment_def)
  show ?thesis
    using special_characters_only_input[OF r mock_unstyled mock_resolves h, of emptyDocument] h
    unfolding n by blast
qed

end
